theory Spec2Isabelle
  imports Main "HOL-Library.Word" "HOL-Library.Multiset"
    "HOL-Library.Char_ord" "HOL-Library.List_Lexorder"
begin

section \<open>keras\_ocr/datasets.py: dataset assembly and the recognizer sample generator\<close>

text \<open>
  The module is embedded function by function. Text is a list of characters, a
  \<^typ>\<open>char\<close> standing for one code point below 256. Exceptions are values of the type
  \<open>error\<close>; a function that can raise returns \<open>error + 'a\<close> with \<open>Inl\<close> for the
  exception. Collaborators that live outside this file (\<open>tools.download_and_verify\<close>,
  \<open>tools.read\<close>, \<open>tools.warpBox\<close>, \<open>tools.read_and_fit\<close>, the augmenter, the zip and
  file system calls) are parameters.
\<close>

subsection \<open>Python primitives used by the module\<close>

datatype error =
    AssertionError string
  | KeyError string
  | IndexError
  | ValueError
  | IOError string

text \<open>\<open>str.isspace\<close> on the code points below 256.\<close>

definition py_isspace :: "char \<Rightarrow> bool" where
  "py_isspace c =
     (let k = (of_char c :: nat)
      in (9 \<le> k \<and> k \<le> 13) \<or> (28 \<le> k \<and> k \<le> 32) \<or> k = 133 \<or> k = 160)"

text \<open>\<open>s.strip()\<close>: whitespace is removed at both ends.\<close>

definition py_strip :: "string \<Rightarrow> string" where
  "py_strip s = rev (dropWhile py_isspace (rev (dropWhile py_isspace s)))"

text \<open>\<open>s.split(sep)\<close> for a one-character separator: never an empty list.\<close>

fun py_split :: "char \<Rightarrow> string \<Rightarrow> string list" where
  "py_split sep [] = [[]]"
| "py_split sep (c # cs) =
     (if c = sep then [] # py_split sep cs
      else (case py_split sep cs of
              [] \<Rightarrow> [[c]]
            | w # ws \<Rightarrow> (c # w) # ws))"

text \<open>\<open>sep.join(parts)\<close> for a one-character separator.\<close>

fun py_join :: "char \<Rightarrow> string list \<Rightarrow> string" where
  "py_join sep [] = []"
| "py_join sep [w] = w"
| "py_join sep (w # v # ws) = w @ sep # py_join sep (v # ws)"

text \<open>
  \<open>xs[i:j]\<close> with Python's treatment of negative and out-of-range bounds
  (\<open>xs[:j]\<close> is \<open>py_slice xs 0 j\<close>).
\<close>

definition slice_bound :: "int \<Rightarrow> int \<Rightarrow> int" where
  "slice_bound n i = (if i < 0 then max 0 (n + i) else min n i)"

definition py_slice :: "'a list \<Rightarrow> int \<Rightarrow> int \<Rightarrow> 'a list" where
  "py_slice xs i j =
     (let n = int (length xs); a = slice_bound n i; b = slice_bound n j
      in if a < b then take (nat (b - a)) (drop (nat a) xs) else [])"

text \<open>\<open>s.startswith(p)\<close>, \<open>s.endswith(p)\<close> and the substring test \<open>p in s\<close>.\<close>

fun startswith :: "string \<Rightarrow> string \<Rightarrow> bool" where
  "startswith s [] = True"
| "startswith [] (p # ps) = False"
| "startswith (c # cs) (p # ps) = (c = p \<and> startswith cs ps)"

definition endswith :: "string \<Rightarrow> string \<Rightarrow> bool" where
  "endswith s p = startswith (rev s) (rev p)"

fun str_contains :: "string \<Rightarrow> string \<Rightarrow> bool" where
  "str_contains p [] = (p = [])"
| "str_contains p (c # cs) = (startswith (c # cs) p \<or> str_contains p cs)"

text \<open>\<open>os.path.join(a, b)\<close> of \<open>posixpath\<close>, two arguments.\<close>

definition os_path_join :: "string \<Rightarrow> string \<Rightarrow> string" where
  "os_path_join a b =
     (if startswith b ''/'' then b
      else if a = [] \<or> endswith a ''/'' then a @ b
      else a @ ''/'' @ b)"

text \<open>\<open>str(n)\<close> for an integer: decimal digits, a minus sign for negatives.\<close>

definition digit_char :: "nat \<Rightarrow> char" where
  "digit_char d = ''0123456789'' ! d"

fun str_nat :: "nat \<Rightarrow> string" where
  "str_nat n = (if n < 10 then [digit_char n] else str_nat (n div 10) @ [digit_char (n mod 10)])"

declare str_nat.simps [simp del]

definition str_int :: "int \<Rightarrow> string" where
  "str_int i = (if i < 0 then CHR ''-'' # str_nat (nat (- i)) else str_nat (nat i))"

subsection \<open>Label entries\<close>

text \<open>
  A label entry is the tuple \<open>(filepath, box, text)\<close>. The box is \<open>None\<close> or an array of
  shape \<open>(-1, 2)\<close>: a list of coordinate pairs. Coordinates are only moved around, so
  their type \<open>'c\<close> is left open.
\<close>

type_synonym 'c box = "('c \<times> 'c) list"
type_synonym 'c entry = "string \<times> 'c box option \<times> string"

subsection \<open>\<open>_read_born_digital_labels_file\<close>\<close>

text \<open>
  One line of the labels file (the body of the two comprehensions, lines 23 to 26):
  \<open>segments = l.strip().split(',')\<close>, then the tuple
  \<open>(os.path.join(image_folder, segments[0]), None, ','.join(segments[1:]).strip()[1:-1])\<close>.
  \<open>segments[0]\<close> raises \<open>IndexError\<close> on an empty list.
\<close>

definition read_born_digital_line :: "string \<Rightarrow> string \<Rightarrow> error + 'c entry" where
  "read_born_digital_line image_folder l =
     (case py_split CHR '','' (py_strip l) of
        [] \<Rightarrow> Inl IndexError
      | s0 # rest \<Rightarrow>
          Inr (os_path_join image_folder s0, None,
               py_slice (py_strip (py_join CHR '','' rest)) 1 (- 1)))"

text \<open>A comprehension whose body can raise: the first exception ends it.\<close>

fun map_raising :: "('a \<Rightarrow> error + 'b) \<Rightarrow> 'a list \<Rightarrow> error + 'b list" where
  "map_raising f [] = Inr []"
| "map_raising f (x # xs) =
     (case f x of
        Inl e \<Rightarrow> Inl e
      | Inr y \<Rightarrow> (case map_raising f xs of Inl e \<Rightarrow> Inl e | Inr ys \<Rightarrow> Inr (y # ys)))"

subsection \<open>The outside world of the assemblers\<close>

text \<open>
  Every call that touches the network or the file system is recorded, in the order in
  which it happens. \<open>tools.download_and_verify\<close> creates its cache directory, so a run
  that records no event has created no directory.
\<close>

datatype io_event =
    Download string string
  | ReadZipMember string string
  | ExtractAll string string
  | ReadLines string

type_synonym 'a io = "io_event list \<Rightarrow> (error + 'a) \<times> io_event list"

definition io_return :: "'a \<Rightarrow> 'a io" where
  "io_return x tr = (Inr x, tr)"

definition io_raise :: "error \<Rightarrow> 'a io" where
  "io_raise e tr = (Inl e, tr)"

definition io_bind :: "'a io \<Rightarrow> ('a \<Rightarrow> 'b io) \<Rightarrow> 'b io" where
  "io_bind m f tr = (case m tr of (Inl e, tr') \<Rightarrow> (Inl e, tr') | (Inr x, tr') \<Rightarrow> f x tr')"

text \<open>The raw COCO-Text labels object, as \<open>json.loads\<close> returns it. A dict is an
  association list in insertion order. \<open>others\<close> are the remaining top-level values
  (\<open>cats\<close>, \<open>info\<close>), each with the keys that iterating over it gives.\<close>

record coco_img =
  img_set :: string
  file_name :: string

record 'c coco_ann =
  language :: string
  legibility :: string
  mask :: "'c list"
  utf8_string :: string

record 'c coco_labels =
  imgs :: "(string \<times> coco_img) list"
  imgToAnns :: "(string \<times> int list) list"
  anns :: "(string \<times> 'c coco_ann) list"
  others :: "(string \<times> string list) list"

text \<open>
  What the outside answers: the expansion of \<open>~\<close>, the result of
  \<open>tools.download_and_verify(url, cache_dir)\<close> (the local path, or an exception), of
  \<open>ZipFile(path).extractall(dir)\<close>, of reading the lines of a text file, of reading and
  parsing a JSON member of a zip file, and \<open>finish_time i\<close>, the moment at which the
  \<open>i\<close>-th submitted download of the thread pool completes.
\<close>

record 'c env =
  expanduser :: "string \<Rightarrow> string"
  download_and_verify :: "string \<Rightarrow> string \<Rightarrow> error + string"
  extractall :: "string \<Rightarrow> string \<Rightarrow> error + unit"
  readlines :: "string \<Rightarrow> error + string list"
  read_json_member :: "string \<Rightarrow> string \<Rightarrow> error + 'c coco_labels"
  finish_time :: "nat \<Rightarrow> nat"

definition do_download :: "'c env \<Rightarrow> string \<Rightarrow> string \<Rightarrow> string io" where
  "do_download E url cache_dir tr = (download_and_verify E url cache_dir, tr @ [Download url cache_dir])"

definition do_extractall :: "'c env \<Rightarrow> string \<Rightarrow> string \<Rightarrow> unit io" where
  "do_extractall E zip_path dir tr = (extractall E zip_path dir, tr @ [ExtractAll zip_path dir])"

definition do_read_json_member :: "'c env \<Rightarrow> string \<Rightarrow> string \<Rightarrow> 'c coco_labels io" where
  "do_read_json_member E zip_path member tr =
     (read_json_member E zip_path member, tr @ [ReadZipMember zip_path member])"

text \<open>
  The function itself (lines 15 to 27): the file is opened and read, then every line is
  turned into a tuple.
\<close>

definition read_born_digital_labels_file ::
  "'c env \<Rightarrow> string \<Rightarrow> string \<Rightarrow> 'c entry list io" where
  "read_born_digital_labels_file E labels_filepath image_folder tr =
     ((case readlines E labels_filepath of
         Inl e \<Rightarrow> Inl e
       | Inr ls \<Rightarrow> map_raising (read_born_digital_line image_folder) ls),
      tr @ [ReadLines labels_filepath])"

subsection \<open>\<open>get_born_digital_recognizer_dataset\<close>\<close>

definition default_cache_dir :: "'c env \<Rightarrow> string option \<Rightarrow> string" where
  "default_cache_dir E cache_dir =
     (case cache_dir of
        None \<Rightarrow> expanduser E (os_path_join ''~'' ''.keras-ocr'')
      | Some d \<Rightarrow> d)"

definition born_digital_train_url :: string where
  "born_digital_train_url =
     ''https://storage.googleapis.com/keras-ocr/borndigital/Challenge1_Training_Task3_Images_GT.zip''"

definition born_digital_test_url :: string where
  "born_digital_test_url =
     ''https://storage.googleapis.com/keras-ocr/borndigital/Challenge1_Test_Task3_Images.zip''"

definition born_digital_test_gt_url :: string where
  "born_digital_test_gt_url =
     ''https://storage.googleapis.com/keras-ocr/borndigital/Challenge1_Test_Task3_GT.txt''"

definition get_born_digital_recognizer_dataset ::
  "'c env \<Rightarrow> string \<Rightarrow> string option \<Rightarrow> 'c entry list io" where
  "get_born_digital_recognizer_dataset E split cache_dir =
     (let cache_dir = default_cache_dir E cache_dir;
          main_dir = os_path_join cache_dir ''borndigital''
      in io_bind
           (if split \<in> set [''train'', ''traintest''] then
              (let train_dir = os_path_join main_dir ''train''
               in io_bind (do_download E born_digital_train_url main_dir) (\<lambda>training_zip_path.
                  io_bind (do_extractall E training_zip_path train_dir) (\<lambda>_.
                  read_born_digital_labels_file E (os_path_join train_dir ''gt.txt'') train_dir)))
            else io_return [])
           (\<lambda>data1.
         io_bind
           (if split \<in> set [''test'', ''traintest''] then
              (let test_dir = os_path_join main_dir ''test''
               in io_bind (do_download E born_digital_test_url main_dir) (\<lambda>test_zip_path.
                  io_bind (do_extractall E test_zip_path test_dir) (\<lambda>_.
                  io_bind (do_download E born_digital_test_gt_url test_dir) (\<lambda>test_gt_path.
                  read_born_digital_labels_file E test_gt_path test_dir))))
            else io_return [])
           (\<lambda>data2. io_return (data1 @ data2))))"

subsection \<open>\<open>get_cocotext_recognizer_dataset\<close>\<close>

definition cocotext_labels_url :: string where
  "cocotext_labels_url = ''https://github.com/bgshih/cocotext/releases/download/dl/cocotext.v2.zip''"

definition cocotext_image_url :: "string \<Rightarrow> string" where
  "cocotext_image_url filename = ''http://images.cocodataset.org/train2014/'' @ filename"

text \<open>\<open>d[k]\<close> on a dict: \<open>KeyError\<close> when the key is missing.\<close>

definition dict_get :: "(string \<times> 'v) list \<Rightarrow> string \<Rightarrow> error + 'v" where
  "dict_get d k = (case map_of d k of None \<Rightarrow> Inl (KeyError k) | Some v \<Rightarrow> Inr v)"

text \<open>\<open>xs.index(x)\<close>: the first position of \<open>x\<close>, \<open>ValueError\<close> when there is none.\<close>

fun list_index :: "'a list \<Rightarrow> 'a \<Rightarrow> error + nat" where
  "list_index [] x = Inl ValueError"
| "list_index (y # ys) x =
     (if y = x then Inr 0
      else (case list_index ys x of Inl e \<Rightarrow> Inl e | Inr i \<Rightarrow> Inr (Suc i)))"

text \<open>\<open>xs[i]\<close> for \<open>i \<ge> 0\<close>: \<open>IndexError\<close> out of range.\<close>

definition list_get :: "'a list \<Rightarrow> nat \<Rightarrow> error + 'a" where
  "list_get xs i = (if i < length xs then Inr (xs ! i) else Inl IndexError)"

text \<open>\<open>np.array(mask).reshape(-1, 2)\<close>: pairs of consecutive numbers; an odd count
  cannot be reshaped.\<close>

fun reshape2 :: "'c list \<Rightarrow> error + 'c box" where
  "reshape2 [] = Inr []"
| "reshape2 [x] = Inl ValueError"
| "reshape2 (x # y # zs) = (case reshape2 zs of Inl e \<Rightarrow> Inl e | Inr b \<Rightarrow> Inr ((x, y) # b))"

text \<open>Lines 64 to 71: the selected ids, and the cap.\<close>

definition select_ids :: "'c coco_labels \<Rightarrow> string \<Rightarrow> string list" where
  "select_ids labels split =
     map fst (filter (\<lambda>(cocoid, data). str_contains (img_set data) split) (imgs labels))"

definition apply_limit ::
  "int option \<Rightarrow> string list \<Rightarrow> 'c coco_labels \<Rightarrow> string list \<times> 'c coco_labels" where
  "apply_limit limit selected_ids labels =
     (case limit of
        None \<Rightarrow> (selected_ids, labels)
      | Some n \<Rightarrow>
          if n = 0 then (selected_ids, labels)
          else
            (let selected_ids = py_slice selected_ids 0 n;
                 labels = labels\<lparr>imgToAnns :=
                             filter (\<lambda>(k, v). k \<in> set selected_ids) (imgToAnns labels)\<rparr>;
                 labels = labels\<lparr>imgs :=
                             filter (\<lambda>(k, v). k \<in> set selected_ids) (imgs labels)\<rparr>;
                 anns_set = set (map fst (imgs labels) @ map fst (imgToAnns labels)
                                 @ map fst (anns labels) @ concat (map snd (others labels)));
                 labels = labels\<lparr>anns := filter (\<lambda>(k, v). k \<in> anns_set) (anns labels)\<rparr>
             in (selected_ids, labels)))"

text \<open>Line 72: the file name of every selected id.\<close>

definition selected_filenames_of :: "'c coco_labels \<Rightarrow> string list \<Rightarrow> error + string list" where
  "selected_filenames_of labels selected_ids =
     map_raising
       (\<lambda>cocoid. case dict_get (imgs labels) cocoid of
                    Inl e \<Rightarrow> Inl e
                  | Inr data \<Rightarrow> Inr (file_name data))
       selected_ids"

text \<open>
  Lines 73 to 82: one download per file name is submitted to the pool;
  \<open>as_completed\<close> hands the futures over in the order in which they finish, and
  \<open>future.result()\<close> raises what the download raised. Leaving the \<open>with\<close> block waits
  for every submitted download, so all of them happen.
\<close>

definition as_completed :: "(nat \<Rightarrow> nat) \<Rightarrow> 'a list \<Rightarrow> 'a list" where
  "as_completed ft futures =
     map snd (sort_key fst (zip (map ft [0..<length futures]) futures))"

fun first_raised :: "(error + 'a) list \<Rightarrow> error + unit" where
  "first_raised [] = Inr ()"
| "first_raised (r # rs) = (case r of Inl e \<Rightarrow> Inl e | Inr _ \<Rightarrow> first_raised rs)"

definition download_images :: "'c env \<Rightarrow> string \<Rightarrow> string list \<Rightarrow> unit io" where
  "download_images E images_dir selected_filenames tr =
     (let futures = map (\<lambda>filename.
                      (cocotext_image_url filename,
                       download_and_verify E (cocotext_image_url filename) images_dir))
                    selected_filenames;
          finished = as_completed (finish_time E) futures
      in (first_raised (map snd finished),
          tr @ map (\<lambda>(url, r). Download url images_dir) finished))"

text \<open>Lines 86 to 92: the annotations of one image.\<close>

fun image_entries ::
  "'c coco_labels \<Rightarrow> bool \<Rightarrow> bool \<Rightarrow> string \<Rightarrow> int list \<Rightarrow> error + 'c entry list" where
  "image_entries labels english_only legible_only filepath [] = Inr []"
| "image_entries labels english_only legible_only filepath (annIdx # rest) =
     (case dict_get (anns labels) (str_int annIdx) of
        Inl e \<Rightarrow> Inl e
      | Inr ann \<Rightarrow>
          if english_only \<and> language ann \<noteq> ''english'' then
            image_entries labels english_only legible_only filepath rest
          else if legible_only \<and> legibility ann \<noteq> ''legible'' then
            image_entries labels english_only legible_only filepath rest
          else
            (case reshape2 (mask ann) of
               Inl e \<Rightarrow> Inl e
             | Inr box \<Rightarrow>
                 (case image_entries labels english_only legible_only filepath rest of
                    Inl e \<Rightarrow> Inl e
                  | Inr ds \<Rightarrow> Inr ((filepath, Some box, utf8_string ann) # ds))))"

text \<open>Lines 84 to 92: the loop over the selected ids, \<open>todo\<close> being the ids still to
  visit.\<close>

fun build_dataset ::
  "'c coco_labels \<Rightarrow> bool \<Rightarrow> bool \<Rightarrow> string \<Rightarrow> string list \<Rightarrow> string list \<Rightarrow> string list
     \<Rightarrow> error + 'c entry list" where
  "build_dataset labels english_only legible_only images_dir selected_ids selected_filenames [] =
     Inr []"
| "build_dataset labels english_only legible_only images_dir selected_ids selected_filenames
     (selected_id # todo) =
     (case list_index selected_ids selected_id of
        Inl e \<Rightarrow> Inl e
      | Inr i \<Rightarrow>
     (case list_get selected_filenames i of
        Inl e \<Rightarrow> Inl e
      | Inr filename \<Rightarrow>
     (case dict_get (imgToAnns labels) selected_id of
        Inl e \<Rightarrow> Inl e
      | Inr annIdxs \<Rightarrow>
     (case image_entries labels english_only legible_only
             (os_path_join images_dir filename) annIdxs of
        Inl e \<Rightarrow> Inl e
      | Inr ds \<Rightarrow>
     (case build_dataset labels english_only legible_only images_dir selected_ids
             selected_filenames todo of
        Inl e \<Rightarrow> Inl e
      | Inr rest \<Rightarrow> Inr (ds @ rest))))))"

definition lift_result :: "error + 'a \<Rightarrow> 'a io" where
  "lift_result r tr = (r, tr)"

text \<open>The directory of the images, as lines 53 to 56 compute it.\<close>

definition cocotext_images_dir :: "'c env \<Rightarrow> string option \<Rightarrow> string" where
  "cocotext_images_dir E cache_dir =
     os_path_join (os_path_join (default_cache_dir E cache_dir) ''coco-text'') ''images''"

text \<open>The function. Its result is the dataset, with \<open>(labels, images_dir)\<close> when
  \<open>return_raw_labels\<close> is set.\<close>

definition get_cocotext_recognizer_dataset ::
  "'c env \<Rightarrow> string \<Rightarrow> string option \<Rightarrow> int option \<Rightarrow> bool \<Rightarrow> bool \<Rightarrow> bool
     \<Rightarrow> ('c entry list \<times> ('c coco_labels \<times> string) option) io" where
  "get_cocotext_recognizer_dataset E split cache_dir limit legible_only english_only
     return_raw_labels =
     (if split \<notin> set [''train'', ''val'', ''trainval''] then
        io_raise (AssertionError (''Unsupported split: '' @ split))
      else
        (let cache_dir = default_cache_dir E cache_dir;
             main_dir = os_path_join cache_dir ''coco-text'';
             images_dir = os_path_join main_dir ''images''
         in io_bind (do_download E cocotext_labels_url main_dir) (\<lambda>labels_zip.
            io_bind (do_read_json_member E labels_zip ''cocotext.v2.json'') (\<lambda>labels.
            (let (selected_ids, labels) = apply_limit limit (select_ids labels split) labels
             in io_bind (lift_result (selected_filenames_of labels selected_ids))
                  (\<lambda>selected_filenames.
                io_bind (download_images E images_dir selected_filenames) (\<lambda>_.
                io_bind (lift_result
                           (build_dataset labels english_only legible_only images_dir
                              selected_ids selected_filenames selected_ids)) (\<lambda>dataset.
                io_return (dataset,
                           if return_raw_labels then Some (labels, images_dir) else None)))))))))"

subsection \<open>Randomness\<close>

text \<open>
  The two global generators (\<open>random\<close> and \<open>np.random\<close>) are streams of raw draws with
  a read position. \<open>randbelow k\<close> and \<open>np.random.randint(low, high)\<close> reduce a raw
  draw to their range: \<open>randint\<close> excludes \<open>high\<close>.
\<close>

definition randbelow :: "(nat \<Rightarrow> nat) \<Rightarrow> nat \<Rightarrow> nat \<Rightarrow> nat" where
  "randbelow src p k = src p mod k"

definition np_randint :: "(nat \<Rightarrow> nat) \<Rightarrow> nat \<Rightarrow> nat \<Rightarrow> nat \<Rightarrow> nat" where
  "np_randint src p low high = low + src p mod (high - low)"

text \<open>
  \<open>random.shuffle(x)\<close>: for \<open>i\<close> from \<open>len(x) - 1\<close> down to 1, \<open>j = randbelow(i + 1)\<close>
  and \<open>x[i], x[j] = x[j], x[i]\<close>. The result is the list and the new read position.
\<close>

fun shuffle_from :: "nat \<Rightarrow> (nat \<Rightarrow> nat) \<Rightarrow> nat \<Rightarrow> 'a list \<Rightarrow> 'a list \<times> nat" where
  "shuffle_from 0 src p xs = (xs, p)"
| "shuffle_from (Suc i) src p xs =
     (let j = randbelow src p (Suc i + 1)
      in shuffle_from i src (Suc p) (xs[Suc i := xs ! j, j := xs ! Suc i]))"

definition random_shuffle :: "(nat \<Rightarrow> nat) \<Rightarrow> nat \<Rightarrow> 'a list \<Rightarrow> 'a list \<times> nat" where
  "random_shuffle src p xs = shuffle_from (length xs - 1) src p xs"

subsection \<open>The machine of the generator\<close>

text \<open>
  Lists are mutable objects: the store \<open>cells\<close> maps an address to the list that lives
  there, and addresses below \<open>next_free\<close> are in use. The machine also carries the two
  random generators and what was printed.
\<close>

datatype 'c out_event = PrintIllegal nat nat | PrintBox "'c box"

record 'c machine =
  cells :: "nat \<Rightarrow> 'c entry list"
  next_free :: nat
  rnd_src :: "nat \<Rightarrow> nat"
  rnd_pos :: nat
  np_src :: "nat \<Rightarrow> nat"
  np_pos :: nat
  stdout :: "'c out_event list"

text \<open>\<open>labels.copy()\<close>: a new list with the same items, at a fresh address.\<close>

definition list_copy :: "nat \<Rightarrow> 'c machine \<Rightarrow> nat \<times> 'c machine" where
  "list_copy a m =
     (next_free m, m\<lparr>cells := (cells m)(next_free m := cells m a), next_free := Suc (next_free m)\<rparr>)"

text \<open>\<open>random.shuffle(labels)\<close> on the list at an address, in place.\<close>

definition shuffle_in_place :: "nat \<Rightarrow> 'c machine \<Rightarrow> 'c machine" where
  "shuffle_in_place a m =
     (let (xs, p) = random_shuffle (rnd_src m) (rnd_pos m) (cells m a)
      in m\<lparr>cells := (cells m)(a := xs), rnd_pos := p\<rparr>)"

text \<open>\<open>np.random.randint(low=0, high=255, size=3).astype('uint8')\<close>.\<close>

definition draw_cval :: "'c machine \<Rightarrow> 8 word list \<times> 'c machine" where
  "draw_cval m =
     (map (\<lambda>k. of_nat (np_randint (np_src m) (np_pos m + k) 0 255)) [0, 1, 2],
      m\<lparr>np_pos := np_pos m + 3\<rparr>)"

text \<open>
  The collaborators of the generator: \<open>tools.read\<close>, \<open>tools.warpBox\<close> (image, box,
  target height, target width, cval), \<open>tools.read_and_fit\<close> (path, width, height, cval)
  and \<open>box.astype('float32')\<close>. Images are opaque.
\<close>

record ('c, 'i) tools =
  read :: "string \<Rightarrow> error + 'i"
  warpBox :: "'i \<Rightarrow> 'c box \<Rightarrow> int \<Rightarrow> int \<Rightarrow> 8 word list \<Rightarrow> error + 'i"
  read_and_fit :: "string \<Rightarrow> int \<Rightarrow> int \<Rightarrow> 8 word list \<Rightarrow> error + 'i"
  astype_float32 :: "'c box \<Rightarrow> 'c box"

text \<open>The arguments of \<open>get_recognizer_image_generator\<close> besides \<open>labels\<close>.\<close>

record 'i gen_args =
  height :: int
  width :: int
  alphabet :: string
  augmenter :: "('i \<Rightarrow> error + 'i) option"

subsection \<open>\<open>get_recognizer_image_generator\<close>\<close>

text \<open>
  A generator object is created without running any of the body. It is \<open>Created\<close>
  until the first \<open>next\<close>, \<open>Running\<close> while it is suspended inside the loop, and
  \<open>Done\<close> once the body has returned or raised. \<open>labels_ref\<close> is the variable
  \<open>labels\<close>, \<open>n\<close> the length of \<open>range(len(labels))\<close> and \<open>pos\<close> the index that
  \<open>itertools.cycle\<close> hands out next.
\<close>

datatype gen_status = Created | Running | Done

record gen =
  status :: gen_status
  labels_ref :: nat
  n :: nat
  pos :: nat

definition get_recognizer_image_generator :: "nat \<Rightarrow> gen" where
  "get_recognizer_image_generator labels = \<lparr>status = Created, labels_ref = labels, n = 0, pos = 0\<rparr>"

text \<open>
  What one round of the body does: the generator is exhausted, an exception leaves it,
  the visited entry is skipped by \<open>continue\<close>, or a pair is yielded. The visited entry
  \<open>labels[index]\<close> is reported with the last two.
\<close>

datatype ('c, 'i) outcome =
    Stopped
  | Raised error
  | Skipped "'c entry"
  | Yielded "'c entry" "'i \<times> string"

text \<open>Lines 156 to 159: the count of entries with an illegal character, its notice,
  and the copy.\<close>

definition n_with_illegal_characters :: "string \<Rightarrow> 'c entry list \<Rightarrow> nat" where
  "n_with_illegal_characters alph labels =
     length (filter (\<lambda>(_, _, text). list_ex (\<lambda>c. c \<notin> set alph) text) labels)"

definition gen_start :: "'i gen_args \<Rightarrow> gen \<Rightarrow> 'c machine \<Rightarrow> gen \<times> 'c machine" where
  "gen_start A g m =
     (let labels = cells m (labels_ref g);
          k = n_with_illegal_characters (alphabet A) labels;
          m = (if k > 0 then m\<lparr>stdout := stdout m @ [PrintIllegal k (length labels)]\<rparr> else m);
          (a, m) = list_copy (labels_ref g) m
      in (\<lparr>status = Running, labels_ref = a, n = length (cells m a), pos = 0\<rparr>, m))"

text \<open>Lines 165 to 176: the image of the visited entry.\<close>

definition make_image ::
  "('c, 'i) tools \<Rightarrow> 'i gen_args \<Rightarrow> string \<Rightarrow> 'c box option \<Rightarrow> 8 word list \<Rightarrow> 'c machine
     \<Rightarrow> (error + 'i) \<times> 'c machine" where
  "make_image T A filepath box cval m =
     (case box of
        Some b \<Rightarrow>
          (let m = m\<lparr>stdout := stdout m @ [PrintBox b]\<rparr>
           in (case read T filepath of
                 Inl e \<Rightarrow> (Inl e, m)
               | Inr img \<Rightarrow> (warpBox T img (astype_float32 T b) (height A) (width A) cval, m)))
      | None \<Rightarrow> (read_and_fit T filepath (width A) (height A) cval, m))"

text \<open>Lines 160 to 182: one round of the loop, from taking the next index of the
  cycle to the \<open>continue\<close>, the \<open>yield\<close> or the exception.\<close>

definition gen_round ::
  "('c, 'i) tools \<Rightarrow> 'i gen_args \<Rightarrow> gen \<Rightarrow> 'c machine \<Rightarrow> ('c, 'i) outcome \<times> gen \<times> 'c machine" where
  "gen_round T A g m =
     (if n g = 0 then (Stopped, g\<lparr>status := Done\<rparr>, m)
      else
        (let index = pos g;
             g = g\<lparr>pos := Suc index mod n g\<rparr>;
             m = (if index = 0 then shuffle_in_place (labels_ref g) m else m)
         in (case list_get (cells m (labels_ref g)) index of
               Inl e \<Rightarrow> (Raised e, g\<lparr>status := Done\<rparr>, m)
             | Inr (filepath, box, text) \<Rightarrow>
                 (let (cval, m) = draw_cval m;
                      (r, m) = make_image T A filepath box cval m
                  in (case r of
                        Inl e \<Rightarrow> (Raised e, g\<lparr>status := Done\<rparr>, m)
                      | Inr img \<Rightarrow>
                          (let text' = filter (\<lambda>c. c \<in> set (alphabet A)) text
                           in if text' = [] then (Skipped (filepath, box, text), g, m)
                              else
                                (case augmenter A of
                                   None \<Rightarrow> (Yielded (filepath, box, text) (img, text'), g, m)
                                 | Some augment_image \<Rightarrow>
                                     (case augment_image img of
                                        Inl e \<Rightarrow> (Raised e, g\<lparr>status := Done\<rparr>, m)
                                      | Inr img \<Rightarrow>
                                          (Yielded (filepath, box, text) (img, text'), g, m)))))))))"

text \<open>One round from any state of the generator object: the first one runs the lines
  before the loop as well, and a finished generator stays finished.\<close>

definition gen_step ::
  "('c, 'i) tools \<Rightarrow> 'i gen_args \<Rightarrow> gen \<Rightarrow> 'c machine \<Rightarrow> ('c, 'i) outcome \<times> gen \<times> 'c machine" where
  "gen_step T A g m =
     (case status g of
        Done \<Rightarrow> (Stopped, g, m)
      | Created \<Rightarrow> (let (g, m) = gen_start A g m in gen_round T A g m)
      | Running \<Rightarrow> gen_round T A g m)"

text \<open>
  \<open>next(generator)\<close>: rounds are run until one does not end in \<open>continue\<close>. A dataset
  whose texts are all filtered to nothing keeps the loop running for ever, so the pull is
  given fuel: \<open>None\<close> means that the fuel ran out before anything came back.
\<close>

fun gen_next ::
  "nat \<Rightarrow> ('c, 'i) tools \<Rightarrow> 'i gen_args \<Rightarrow> gen \<Rightarrow> 'c machine
     \<Rightarrow> (('c, 'i) outcome \<times> gen \<times> 'c machine) option" where
  "gen_next 0 T A g m = None"
| "gen_next (Suc fuel) T A g m =
     (case gen_step T A g m of
        (Skipped e, g', m') \<Rightarrow> gen_next fuel T A g' m'
      | r \<Rightarrow> Some r)"

text \<open>A number of rounds in a row, with the outcome of each.\<close>

fun gen_run ::
  "nat \<Rightarrow> ('c, 'i) tools \<Rightarrow> 'i gen_args \<Rightarrow> gen \<Rightarrow> 'c machine
     \<Rightarrow> ('c, 'i) outcome list \<times> gen \<times> 'c machine" where
  "gen_run 0 T A g m = ([], g, m)"
| "gen_run (Suc k) T A g m =
     (case gen_step T A g m of
        (ev, g', m') \<Rightarrow>
          (case gen_run k T A g' m' of (evs, g'', m'') \<Rightarrow> (ev # evs, g'', m'')))"

text \<open>A number of pulls in a row by the consumer, each with the same fuel; a pull that
  runs out of fuel ends the sequence with \<open>None\<close>.\<close>

fun gen_pulls ::
  "nat \<Rightarrow> nat \<Rightarrow> ('c, 'i) tools \<Rightarrow> 'i gen_args \<Rightarrow> gen \<Rightarrow> 'c machine
     \<Rightarrow> (('c, 'i) outcome list \<times> gen \<times> 'c machine) option" where
  "gen_pulls 0 fuel T A g m = Some ([], g, m)"
| "gen_pulls (Suc k) fuel T A g m =
     (case gen_next fuel T A g m of
        None \<Rightarrow> None
      | Some (ev, g', m') \<Rightarrow>
          (case gen_pulls k fuel T A g' m' of
             None \<Rightarrow> None
           | Some (evs, g'', m'') \<Rightarrow> Some (ev # evs, g'', m'')))"

text \<open>The entry that an outcome reports.\<close>

fun visited :: "('c, 'i) outcome \<Rightarrow> 'c entry list" where
  "visited (Skipped e) = [e]"
| "visited (Yielded e s) = [e]"
| "visited Stopped = []"
| "visited (Raised e) = []"

fun is_visit :: "('c, 'i) outcome \<Rightarrow> bool" where
  "is_visit (Skipped e) = True"
| "is_visit (Yielded e s) = True"
| "is_visit Stopped = False"
| "is_visit (Raised e) = False"

subsection \<open>Concrete inputs\<close>

text \<open>An outside world whose labels file holds the line \<open>img1.jpg,"hello, world"\<close>.\<close>

definition example_env :: "nat env" where
  "example_env =
     \<lparr>expanduser = (\<lambda>p. ''/home/u'' @ drop 1 p),
      download_and_verify = (\<lambda>url dir. Inr (os_path_join dir ''file'')),
      extractall = (\<lambda>z d. Inr ()),
      readlines = (\<lambda>p. Inr [''img1.jpg,'' @ CHR 0x22 # ''hello, world'' @ [CHR 0x22, CHR 0x0A]]),
      read_json_member = (\<lambda>z k. Inl (IOError k)),
      finish_time = (\<lambda>i. i)\<rparr>"

text \<open>
  A small COCO-Text index: the images \<open>2\<close> and \<open>1\<close> of the training set, in this order,
  and the image \<open>3\<close> of the validation set; image \<open>2\<close> has two annotations.
\<close>

definition example_ann :: "string \<Rightarrow> nat coco_ann" where
  "example_ann word =
     \<lparr>language = ''english'', legibility = ''legible'', mask = [0, 0, 4, 0, 4, 2, 0, 2],
      utf8_string = word\<rparr>"

definition example_labels :: "nat coco_labels" where
  "example_labels =
     \<lparr>imgs = [(''2'', \<lparr>img_set = ''train'', file_name = ''b.jpg''\<rparr>),
              (''1'', \<lparr>img_set = ''train'', file_name = ''a.jpg''\<rparr>),
              (''3'', \<lparr>img_set = ''val'', file_name = ''c.jpg''\<rparr>)],
      imgToAnns = [(''2'', [10, 11]), (''1'', [12]), (''3'', [13])],
      anns = [(''10'', example_ann ''stop''), (''11'', example_ann ''way''),
              (''12'', example_ann ''exit''), (''13'', example_ann ''open'')],
      others = [(''cats'', []), (''info'', [])]\<rparr>"

definition example_coco_env :: "nat env" where
  "example_coco_env =
     \<lparr>expanduser = (\<lambda>p. ''/home/u'' @ drop 1 p),
      download_and_verify = (\<lambda>url dir. Inr (os_path_join dir ''file'')),
      extractall = (\<lambda>z d. Inr ()),
      readlines = (\<lambda>p. Inr []),
      read_json_member = (\<lambda>z k. Inr example_labels),
      finish_time = (\<lambda>i. 5 - i)\<rparr>"

definition example_box :: "nat box" where
  "example_box = [(0, 0), (4, 0), (4, 2), (0, 2)]"

definition example_dataset :: "nat entry list" where
  "example_dataset =
     [(''/c/coco-text/images/b.jpg'', Some example_box, ''stop''),
      (''/c/coco-text/images/b.jpg'', Some example_box, ''way''),
      (''/c/coco-text/images/a.jpg'', Some example_box, ''exit'')]"

definition example_dataset_sorted :: "nat entry list" where
  "example_dataset_sorted =
     [(''/c/coco-text/images/a.jpg'', Some example_box, ''exit''),
      (''/c/coco-text/images/b.jpg'', Some example_box, ''stop''),
      (''/c/coco-text/images/b.jpg'', Some example_box, ''way'')]"

definition example_trace :: "io_event list" where
  "example_trace =
     [Download cocotext_labels_url ''/c/coco-text'',
      ReadZipMember ''/c/coco-text/file'' ''cocotext.v2.json'',
      Download ''http://images.cocodataset.org/train2014/a.jpg'' ''/c/coco-text/images'',
      Download ''http://images.cocodataset.org/train2014/b.jpg'' ''/c/coco-text/images'']"

text \<open>
  The dataset that follows the selected ids in sorted order, for comparison with what
  the function returns: the loop of lines 84 to 92 run over \<open>sorted(selected_ids)\<close>.
\<close>

definition dataset_following_sorted_ids ::
  "'c coco_labels \<Rightarrow> bool \<Rightarrow> bool \<Rightarrow> string \<Rightarrow> string \<Rightarrow> error + 'c entry list" where
  "dataset_following_sorted_ids labels english_only legible_only images_dir split =
     (let selected_ids = sort (select_ids labels split)
      in (case selected_filenames_of labels selected_ids of
            Inl e \<Rightarrow> Inl e
          | Inr selected_filenames \<Rightarrow>
              build_dataset labels english_only legible_only images_dir selected_ids
                selected_filenames selected_ids))"

text \<open>
  A generator input: two pre-cropped entries, of which the second has no character of the
  alphabet \<open>abc\<close>; collaborators that return the path as the image; a machine whose
  store holds the caller's list at address 0.
\<close>

definition example_entries :: "nat entry list" where
  "example_entries = [(''a.png'', None, ''abcxyz''), (''b.png'', None, ''xyz'')]"

definition example_tools :: "(nat, string) tools" where
  "example_tools =
     \<lparr>read = (\<lambda>path. Inr path),
      warpBox = (\<lambda>img box target_height target_width cval. Inr img),
      read_and_fit = (\<lambda>path w h cval. Inr path),
      astype_float32 = (\<lambda>box. box)\<rparr>"

definition example_args :: "string gen_args" where
  "example_args = \<lparr>height = 31, width = 200, alphabet = ''abc'', augmenter = None\<rparr>"

definition example_machine :: "nat machine" where
  "example_machine =
     \<lparr>cells = (\<lambda>a. if a = 0 then example_entries else []),
      next_free = 1,
      rnd_src = (\<lambda>i. 0),
      rnd_pos = 0,
      np_src = (\<lambda>i. 254 + i),
      np_pos = 0,
      stdout = []\<rparr>"

definition example_running :: gen where
  "example_running = \<lparr>status = Running, labels_ref = 0, n = 2, pos = 0\<rparr>"

definition example_running_at_1 :: gen where
  "example_running_at_1 = \<lparr>status = Running, labels_ref = 0, n = 2, pos = 1\<rparr>"

definition example_empty_machine :: "nat machine" where
  "example_empty_machine = example_machine\<lparr>cells := (\<lambda>a. [])\<rparr>"

section \<open>Properties\<close>

subsection \<open>Splitting and joining\<close>

lemma py_split_nonempty: "py_split sep s \<noteq> []"
  by (induction s) (auto split: list.splits)

lemma py_split_no_sep: "sep \<notin> set f \<Longrightarrow> py_split sep f = [f]"
  by (induction f) auto

lemma py_split_first:
  "sep \<notin> set f \<Longrightarrow> py_split sep (f @ sep # r) = f # py_split sep r"
  by (induction f) auto

lemma py_join_split: "py_join sep (py_split sep s) = s"
proof (induction s)
  case Nil
  show ?case by simp
next
  case (Cons c cs)
  show ?case
  proof (cases "c = sep")
    case True
    obtain w ws where ws: "py_split sep cs = w # ws"
      using py_split_nonempty [of sep cs] by (cases "py_split sep cs") auto
    with Cons True show ?thesis by simp
  next
    case False
    obtain w ws where ws: "py_split sep cs = w # ws"
      using py_split_nonempty [of sep cs] by (cases "py_split sep cs") auto
    with Cons False show ?thesis by (cases ws) auto
  qed
qed

lemma py_slice_strip_ends: "py_slice (q1 # t @ [q2]) 1 (- 1) = t"
  by (simp add: py_slice_def slice_bound_def)

lemma py_split_takeWhile:
  "py_split sep s = takeWhile (\<lambda>c. c \<noteq> sep) s # tl (py_split sep s)"
proof (induction s)
  case Nil
  show ?case by simp
next
  case (Cons c cs)
  obtain w ws where ws: "py_split sep cs = w # ws"
    using py_split_nonempty [of sep cs] by (cases "py_split sep cs") auto
  with Cons show ?case by auto
qed

lemma py_join_tl_split:
  "py_join sep (tl (py_split sep s)) = drop (Suc (length (takeWhile (\<lambda>c. c \<noteq> sep) s))) s"
proof (cases "sep \<in> set s")
  case False
  then have tw: "takeWhile (\<lambda>c. c \<noteq> sep) s = s"
    by (auto intro: takeWhile_eq_all_conv [THEN iffD2])
  show ?thesis unfolding tw using False by (simp add: py_split_no_sep)
next
  case True
  define f where "f = takeWhile (\<lambda>c. c \<noteq> sep) s"
  define r where "r = tl (dropWhile (\<lambda>c. c \<noteq> sep) s)"
  have hd: "dropWhile (\<lambda>c. c \<noteq> sep) s \<noteq> []" using True by (simp add: dropWhile_eq_Nil_conv) 
  then have "hd (dropWhile (\<lambda>c. c \<noteq> sep) s) = sep"
    using hd_dropWhile [of "\<lambda>c. c \<noteq> sep" s] by simp
  with hd have s: "s = f @ sep # r"
    unfolding f_def r_def
    by (metis takeWhile_dropWhile_id list.collapse)
  have nf: "sep \<notin> set f" unfolding f_def by (auto dest: set_takeWhileD)
  have tw: "takeWhile (\<lambda>c. c \<noteq> sep) (f @ sep # r) = f"
    using nf by (induction f) auto
  show ?thesis
    unfolding s tw using nf by (simp add: py_split_first py_join_split)
qed

lemma read_born_digital_line_eq:
  "read_born_digital_line image_folder l =
     Inr (os_path_join image_folder (takeWhile (\<lambda>c. c \<noteq> CHR '','') (py_strip l)), None,
          py_slice (py_strip (drop (Suc (length (takeWhile (\<lambda>c. c \<noteq> CHR '','') (py_strip l))))
                     (py_strip l))) 1 (- 1))"
proof -
  obtain w ws where ws: "py_split CHR '','' (py_strip l) = w # ws"
    using py_split_nonempty [of "CHR '',''" "py_strip l"]
    by (cases "py_split CHR '','' (py_strip l)") auto
  have w: "w = takeWhile (\<lambda>c. c \<noteq> CHR '','') (py_strip l)"
    using py_split_takeWhile [of "CHR '',''" "py_strip l"] ws by simp
  have j: "py_join CHR '','' ws =
      drop (Suc (length (takeWhile (\<lambda>c. c \<noteq> CHR '','') (py_strip l)))) (py_strip l)"
    using py_join_tl_split [of "CHR '',''" "py_strip l"] ws by simp
  show ?thesis
    unfolding read_born_digital_line_def ws using w j by simp
qed

lemma map_raising_total:
  "(\<And>x. f x = Inr (h x)) \<Longrightarrow> map_raising f xs = Inr (map h xs)"
  by (induction xs) auto


subsection \<open>The delimited-text label parser\<close>

text \<open>
  Claim C5. For every line of the labels file, the parser takes the first
  comma-separated field of the stripped line as the file name and joins it with the image
  folder, takes everything after the first comma (the remaining fields rejoined with
  commas), strips it and drops its first and its last character, and sets the region to
  \<open>None\<close>. Dropping the first and last character of a label in double quotes leaves
  the label. The witness is the line \<open>img1.jpg,"hello, world"\<close> with folder \<open>/data\<close>.
\<close>

theorem read_born_digital_labels_file_lines:
  assumes "readlines E labels_filepath = Inr ls"
  shows "fst (read_born_digital_labels_file E labels_filepath image_folder tr) =
           Inr (map (\<lambda>l. let s = py_strip l;
                             field0 = takeWhile (\<lambda>c. c \<noteq> CHR '','') s;
                             label = py_strip (drop (Suc (length field0)) s)
                         in (os_path_join image_folder field0, None, py_slice label 1 (- 1))) ls)
         \<and> (\<forall>t. py_slice (CHR 0x22 # t @ [CHR 0x22]) 1 (- 1) = t)"
proof -
  have "map_raising (read_born_digital_line image_folder) ls =
          Inr (map (\<lambda>l. let s = py_strip l;
                             field0 = takeWhile (\<lambda>c. c \<noteq> CHR '','') s;
                             label = py_strip (drop (Suc (length field0)) s)
                         in (os_path_join image_folder field0, None, py_slice label 1 (- 1))) ls)"
    by (rule map_raising_total) (simp add: read_born_digital_line_eq Let_def)
  then show ?thesis
    using assms by (simp add: read_born_digital_labels_file_def py_slice_strip_ends)
qed

theorem read_born_digital_labels_file_lines_witness:
  "readlines example_env ''gt.txt'' =
     Inr [''img1.jpg,'' @ CHR 0x22 # ''hello, world'' @ [CHR 0x22, CHR 0x0A]]
   \<and> fst (read_born_digital_labels_file example_env ''gt.txt'' ''/data'' []) =
       Inr [(''/data/img1.jpg'', None, ''hello, world'')]"
proof -
  have h: "readlines example_env ''gt.txt'' =
     Inr [''img1.jpg,'' @ CHR 0x22 # ''hello, world'' @ [CHR 0x22, CHR 0x0A]]"
    by (simp add: example_env_def)
  show ?thesis
    using h read_born_digital_labels_file_lines [OF h, of "''/data''" "[]"]
    by (simp add: py_strip_def py_isspace_def os_path_join_def endswith_def py_slice_def
        slice_bound_def)
qed

subsection \<open>Split validation\<close>

text \<open>\<open>get_cocotext_recognizer_dataset\<close> checks the split first: an unsupported split
  raises before anything is recorded.\<close>

lemma get_cocotext_unsupported_split:
  "split \<notin> set [''train'', ''val'', ''trainval''] \<Longrightarrow>
     get_cocotext_recognizer_dataset E split cache_dir limit legible_only english_only raw tr =
       (Inl (AssertionError (''Unsupported split: '' @ split)), tr)"
  by (simp add: get_cocotext_recognizer_dataset_def io_raise_def)

text \<open>
  Claim C1. \<open>get_born_digital_recognizer_dataset\<close> does not check its split: with the
  split \<open>validation\<close>, which is none of \<open>train\<close>, \<open>test\<close> and \<open>traintest\<close>, it raises
  nothing and returns the empty dataset, having touched neither network nor file system.
\<close>

theorem born_digital_unknown_split:
  "get_born_digital_recognizer_dataset E ''validation'' cache_dir tr = (Inr [], tr)"
  by (simp add: get_born_digital_recognizer_dataset_def io_bind_def io_return_def Let_def)

subsection \<open>The cap of the COCO-Text assembler\<close>

text \<open>
  Claim C10. With \<open>limit=0\<close> no cap is applied: the call behaves as with \<open>limit=None\<close>,
  in its result and in what it does to the outside.
\<close>

theorem cocotext_limit_zero:
  "get_cocotext_recognizer_dataset E split cache_dir (Some 0) legible_only english_only raw
     = get_cocotext_recognizer_dataset E split cache_dir None legible_only english_only raw"
  by (simp add: get_cocotext_recognizer_dataset_def apply_limit_def)


subsection \<open>The steps of the COCO-Text assembler\<close>

lemma cocotext_Inr_cases:
  assumes "get_cocotext_recognizer_dataset E split cache_dir limit legible_only english_only raw tr
             = (Inr (ds, r), tr')"
  obtains labels_zip labels0 fns where
    "split \<in> set [''train'', ''val'', ''trainval'']"
    "download_and_verify E cocotext_labels_url
       (os_path_join (default_cache_dir E cache_dir) ''coco-text'') = Inr labels_zip"
    "read_json_member E labels_zip ''cocotext.v2.json'' = Inr labels0"
    "selected_filenames_of (snd (apply_limit limit (select_ids labels0 split) labels0))
       (fst (apply_limit limit (select_ids labels0 split) labels0)) = Inr fns"
    "fst (download_images E (cocotext_images_dir E cache_dir) fns
            (tr @ [Download cocotext_labels_url
                     (os_path_join (default_cache_dir E cache_dir) ''coco-text''),
                   ReadZipMember labels_zip ''cocotext.v2.json''])) = Inr ()"
    "build_dataset (snd (apply_limit limit (select_ids labels0 split) labels0))
       english_only legible_only (cocotext_images_dir E cache_dir)
       (fst (apply_limit limit (select_ids labels0 split) labels0)) fns
       (fst (apply_limit limit (select_ids labels0 split) labels0)) = Inr ds"
    "r = (if raw then Some (snd (apply_limit limit (select_ids labels0 split) labels0),
                            cocotext_images_dir E cache_dir) else None)"
  using assms
  unfolding get_cocotext_recognizer_dataset_def io_bind_def io_return_def io_raise_def
    lift_result_def do_download_def do_read_json_member_def cocotext_images_dir_def Let_def
  by (auto split: if_splits sum.splits prod.splits)

lemma cocotext_Inr_intro:
  assumes
    "split \<in> set [''train'', ''val'', ''trainval'']"
    "download_and_verify E cocotext_labels_url
       (os_path_join (default_cache_dir E cache_dir) ''coco-text'') = Inr labels_zip"
    "read_json_member E labels_zip ''cocotext.v2.json'' = Inr labels0"
    "selected_filenames_of (snd (apply_limit limit (select_ids labels0 split) labels0))
       (fst (apply_limit limit (select_ids labels0 split) labels0)) = Inr fns"
    "fst (download_images E (cocotext_images_dir E cache_dir) fns
            (tr @ [Download cocotext_labels_url
                     (os_path_join (default_cache_dir E cache_dir) ''coco-text''),
                   ReadZipMember labels_zip ''cocotext.v2.json''])) = Inr ()"
    "build_dataset (snd (apply_limit limit (select_ids labels0 split) labels0))
       english_only legible_only (cocotext_images_dir E cache_dir)
       (fst (apply_limit limit (select_ids labels0 split) labels0)) fns
       (fst (apply_limit limit (select_ids labels0 split) labels0)) = Inr ds"
  shows "fst (get_cocotext_recognizer_dataset E split cache_dir limit legible_only english_only raw tr)
           = Inr (ds, if raw then Some (snd (apply_limit limit (select_ids labels0 split) labels0),
                            cocotext_images_dir E cache_dir) else None)"
  using assms
  unfolding get_cocotext_recognizer_dataset_def io_bind_def io_return_def io_raise_def
    lift_result_def do_download_def do_read_json_member_def cocotext_images_dir_def Let_def
  by (auto split: if_splits sum.splits prod.splits)


lemma mset_as_completed: "mset (as_completed ft xs) = mset xs"
proof -
  have "map snd (zip (map ft [0..<length xs]) xs) = xs"
    by (simp add: map_snd_zip)
  then have "image_mset snd (mset (zip (map ft [0..<length xs]) xs)) = mset xs"
    by (metis mset_map)
  then show ?thesis
    by (simp add: as_completed_def)
qed

lemma first_raised_Inr_iff: "first_raised rs = Inr u \<longleftrightarrow> (\<forall>r \<in> set rs. \<exists>x. r = Inr x)"
  by (induction rs) (auto split: sum.splits)

lemma set_as_completed: "set (as_completed ft xs) = set xs"
  using mset_as_completed [of ft xs] by (rule mset_eq_setD)

lemma download_images_ok_iff:
  "fst (download_images E images_dir fns tr) = Inr () \<longleftrightarrow>
     (\<forall>filename \<in> set fns.
        \<exists>path. download_and_verify E (cocotext_image_url filename) images_dir = Inr path)"
  by (simp add: download_images_def first_raised_Inr_iff set_as_completed Let_def)

lemma download_images_finish_time:
  assumes "fst (download_images E images_dir fns tr) = Inr ()"
  shows "fst (download_images (E\<lparr>finish_time := ft\<rparr>) images_dir fns tr2) = Inr ()"
  using assms unfolding download_images_ok_iff by simp

lemma image_entries_filepath:
  "image_entries labels eo lo filepath annIdxs = Inr ds \<Longrightarrow> e \<in> set ds \<Longrightarrow> fst e = filepath"
proof (induction annIdxs arbitrary: ds)
  case Nil
  then show ?case by simp
next
  case (Cons annIdx rest)
  then show ?case
    by (fastforce split: sum.splits if_splits)
qed

lemma build_dataset_card:
  "build_dataset labels eo lo images_dir ids fns todo = Inr ds \<Longrightarrow>
     card (fst ` set ds) \<le> length todo"
proof (induction todo arbitrary: ds)
  case Nil
  then show ?case by simp
next
  case (Cons selected_id todo)
  from Cons.prems obtain i filename annIdxs d1 rest where
    d1: "image_entries labels eo lo (os_path_join images_dir filename) annIdxs = Inr d1"
    and rest: "build_dataset labels eo lo images_dir ids fns todo = Inr rest"
    and ds: "ds = d1 @ rest"
    by (auto split: sum.splits)
  have "fst ` set d1 \<subseteq> {os_path_join images_dir filename}"
    using image_entries_filepath [OF d1] by auto
  then have "card (fst ` set d1) \<le> card {os_path_join images_dir filename}"
    by (intro card_mono) simp_all
  then have "card (fst ` set d1) \<le> 1"
    by simp
  moreover have "card (fst ` set rest) \<le> length todo"
    using Cons.IH [OF rest] .
  moreover have "card (fst ` set ds) \<le> card (fst ` set d1) + card (fst ` set rest)"
    unfolding ds by (simp add: image_Un card_Un_le)
  ultimately show ?case by simp
qed

lemma py_slice_prefix: "0 \<le> k \<Longrightarrow> py_slice xs 0 k = take (nat k) xs"
  by (auto simp: py_slice_def slice_bound_def Let_def min_def)

lemma selected_filenames_of_Inr:
  "selected_filenames_of labels ids = Inr fns \<Longrightarrow>
     length fns = length ids \<and>
     (\<forall>i < length ids. \<exists>data. dict_get (imgs labels) (ids ! i) = Inr data \<and> fns ! i = file_name data)"
  unfolding selected_filenames_of_def
proof (induction ids arbitrary: fns)
  case Nil
  then show ?case by simp
next
  case (Cons a ids)
  then show ?case
    by (auto split: sum.splits simp: nth_Cons split: nat.splits)
qed

lemma list_index_Inr:
  "list_index xs x = Inr i \<Longrightarrow> i < length xs \<and> xs ! i = x"
  by (induction xs arbitrary: i) (auto split: if_splits sum.splits)

text \<open>The dataset is the concatenation of one block of entries per selected id, in the
  order of the ids.\<close>

lemma build_dataset_blocks:
  assumes fns: "selected_filenames_of labels ids = Inr fns"
    and b: "build_dataset labels eo lo images_dir ids fns todo = Inr ds"
  shows "\<exists>blocks. ds = concat blocks \<and>
           list_all2 (\<lambda>cocoid block. \<exists>data annIdxs.
               dict_get (imgs labels) cocoid = Inr data \<and>
               dict_get (imgToAnns labels) cocoid = Inr annIdxs \<and>
               image_entries labels eo lo (os_path_join images_dir (file_name data)) annIdxs
                 = Inr block) todo blocks"
  using b
proof (induction todo arbitrary: ds)
  case Nil
  then show ?case by simp
next
  case (Cons selected_id todo)
  from Cons.prems obtain i filename annIdxs d1 rest where
    i: "list_index ids selected_id = Inr i"
    and f: "list_get fns i = Inr filename"
    and a: "dict_get (imgToAnns labels) selected_id = Inr annIdxs"
    and d1: "image_entries labels eo lo (os_path_join images_dir filename) annIdxs = Inr d1"
    and rest: "build_dataset labels eo lo images_dir ids fns todo = Inr rest"
    and ds: "ds = d1 @ rest"
    by (auto split: sum.splits)
  from list_index_Inr [OF i] have il: "i < length ids" and ii: "ids ! i = selected_id" by auto
  from selected_filenames_of_Inr [OF fns] il ii obtain data where
    data: "dict_get (imgs labels) selected_id = Inr data" "fns ! i = file_name data"
    by auto
  from f have "filename = fns ! i" by (auto simp: list_get_def split: if_splits)
  with data d1 have d1': "image_entries labels eo lo (os_path_join images_dir (file_name data)) annIdxs
                 = Inr d1" by simp
  from Cons.IH [OF rest] obtain blocks where
    bl: "rest = concat blocks"
    "list_all2 (\<lambda>cocoid block. \<exists>data annIdxs.
               dict_get (imgs labels) cocoid = Inr data \<and>
               dict_get (imgToAnns labels) cocoid = Inr annIdxs \<and>
               image_entries labels eo lo (os_path_join images_dir (file_name data)) annIdxs
                 = Inr block) todo blocks" by blast
  show ?case
    apply (rule exI [of _ "d1 # blocks"])
    using ds bl data a d1' by auto
qed


subsection \<open>Runs on the small index\<close>

lemmas example_eval =
  get_cocotext_recognizer_dataset_def example_coco_env_def example_labels_def
  example_ann_def io_bind_def io_return_def io_raise_def lift_result_def do_download_def
  do_read_json_member_def default_cache_dir_def os_path_join_def endswith_def
  apply_limit_def select_ids_def dict_get_def download_images_def as_completed_def
  list_get_def str_int_def str_nat.simps digit_char_def Let_def cocotext_image_url_def
  selected_filenames_of_def py_slice_def slice_bound_def
  example_dataset_def example_box_def example_trace_def example_dataset_sorted_def
  dataset_following_sorted_ids_def

lemma example_run:
  "get_cocotext_recognizer_dataset example_coco_env ''train'' (Some ''/c'') None False False False []
     = (Inr (example_dataset, None), example_trace)"
  by code_simp

lemma example_run_limit_1:
  "get_cocotext_recognizer_dataset example_coco_env ''train'' (Some ''/c'') (Some 1) False False
     False []
   = (Inr (take 2 example_dataset, None),
      [Download cocotext_labels_url ''/c/coco-text'',
       ReadZipMember ''/c/coco-text/file'' ''cocotext.v2.json'',
       Download ''http://images.cocodataset.org/train2014/b.jpg'' ''/c/coco-text/images''])"
  by code_simp

lemma example_run_limit_5:
  "get_cocotext_recognizer_dataset example_coco_env ''train'' (Some ''/c'') (Some 5) False False
     False []
   = (Inr (example_dataset, None), example_trace)"
  by code_simp

lemma example_limit_5:
  "\<exists>ds5 r5 tr5.
     get_cocotext_recognizer_dataset example_coco_env ''train'' (Some ''/c'') (Some 5)
       False False False [] = (Inr (ds5, r5), tr5) \<and> length ds5 < 5"
proof -
  have "length example_dataset < 5" by (simp add: example_dataset_def)
  with example_run_limit_5 show ?thesis by blast
qed

lemma example_limit_1:
  "\<exists>ds1 r1 tr1.
     get_cocotext_recognizer_dataset example_coco_env ''train'' (Some ''/c'') (Some 1)
       False False False [] = (Inr (ds1, r1), tr1) \<and> 1 < length ds1"
proof -
  have "1 < length (take 2 example_dataset)" by (simp add: example_dataset_def)
  with example_run_limit_1 show ?thesis by blast
qed

lemma apply_limit_positive:
  "0 < N \<Longrightarrow> fst (apply_limit (Some N) ids labels) = take (nat N) ids"
  by (simp add: apply_limit_def Let_def py_slice_prefix)

text \<open>
  Claim C6. With a cap \<open>limit = N > 0\<close>, the list of selected image ids is cut to its
  first \<open>N\<close> elements before the annotations are resolved. The returned dataset is the
  concatenation of one block of entries per remaining id, so of at most \<open>N\<close> blocks, and
  its entries name at most \<open>N\<close> distinct image files. The cap is on images, not on
  entries: on the small index, a cap of 5 gives fewer than 5 entries and a cap of 1 gives
  more than one entry.
\<close>

theorem cocotext_limit_caps_images:
  assumes "0 < N"
    and "get_cocotext_recognizer_dataset E split cache_dir (Some N) legible_only english_only raw tr
           = (Inr (ds, r), tr')"
  shows "card (fst ` set ds) \<le> nat N
         \<and> (\<exists>labels_zip labels0 blocks.
               read_json_member E labels_zip ''cocotext.v2.json'' = Inr labels0 \<and>
               fst (apply_limit (Some N) (select_ids labels0 split) labels0)
                 = take (nat N) (select_ids labels0 split) \<and>
               ds = concat blocks \<and> length blocks \<le> nat N \<and>
               list_all2
                 (\<lambda>cocoid block. \<exists>data annIdxs.
                    dict_get (imgs (snd (apply_limit (Some N) (select_ids labels0 split) labels0)))
                      cocoid = Inr data \<and>
                    dict_get (imgToAnns (snd (apply_limit (Some N) (select_ids labels0 split) labels0)))
                      cocoid = Inr annIdxs \<and>
                    image_entries (snd (apply_limit (Some N) (select_ids labels0 split) labels0))
                      english_only legible_only
                      (os_path_join (cocotext_images_dir E cache_dir) (file_name data)) annIdxs
                      = Inr block)
                 (take (nat N) (select_ids labels0 split)) blocks)
         \<and> (\<exists>ds5 r5 tr5.
               get_cocotext_recognizer_dataset example_coco_env ''train'' (Some ''/c'') (Some 5)
                 False False False [] = (Inr (ds5, r5), tr5) \<and> length ds5 < 5)
         \<and> (\<exists>ds1 r1 tr1.
               get_cocotext_recognizer_dataset example_coco_env ''train'' (Some ''/c'') (Some 1)
                 False False False [] = (Inr (ds1, r1), tr1) \<and> 1 < length ds1)"
proof -
  from assms(2) obtain labels_zip labels0 fns where
    js: "read_json_member E labels_zip ''cocotext.v2.json'' = Inr labels0"
    and fn: "selected_filenames_of (snd (apply_limit (Some N) (select_ids labels0 split) labels0))
       (fst (apply_limit (Some N) (select_ids labels0 split) labels0)) = Inr fns"
    and bd: "build_dataset (snd (apply_limit (Some N) (select_ids labels0 split) labels0))
       english_only legible_only (cocotext_images_dir E cache_dir)
       (fst (apply_limit (Some N) (select_ids labels0 split) labels0)) fns
       (fst (apply_limit (Some N) (select_ids labels0 split) labels0)) = Inr ds"
    by (rule cocotext_Inr_cases)
  let ?ids = "take (nat N) (select_ids labels0 split)"
  have ids: "fst (apply_limit (Some N) (select_ids labels0 split) labels0) = ?ids"
    using assms(1) by (rule apply_limit_positive)
  have len: "length ?ids \<le> nat N" by simp
  have "card (fst ` set ds) \<le> length ?ids"
    using build_dataset_card [OF bd] by (simp only: ids)
  with len have card: "card (fst ` set ds) \<le> nat N" by linarith
  from build_dataset_blocks [OF fn bd] obtain blocks where
    cc: "ds = concat blocks"
    and bl: "list_all2
                 (\<lambda>cocoid block. \<exists>data annIdxs.
                    dict_get (imgs (snd (apply_limit (Some N) (select_ids labels0 split) labels0)))
                      cocoid = Inr data \<and>
                    dict_get (imgToAnns (snd (apply_limit (Some N) (select_ids labels0 split) labels0)))
                      cocoid = Inr annIdxs \<and>
                    image_entries (snd (apply_limit (Some N) (select_ids labels0 split) labels0))
                      english_only legible_only
                      (os_path_join (cocotext_images_dir E cache_dir) (file_name data)) annIdxs
                      = Inr block)
                 (fst (apply_limit (Some N) (select_ids labels0 split) labels0)) blocks"
    by blast
  from bl have "length blocks = length ?ids"
    by (simp only: ids list_all2_lengthD [symmetric])
  with len have lb: "length blocks \<le> nat N" by simp
  from bl have bl': "list_all2
                 (\<lambda>cocoid block. \<exists>data annIdxs.
                    dict_get (imgs (snd (apply_limit (Some N) (select_ids labels0 split) labels0)))
                      cocoid = Inr data \<and>
                    dict_get (imgToAnns (snd (apply_limit (Some N) (select_ids labels0 split) labels0)))
                      cocoid = Inr annIdxs \<and>
                    image_entries (snd (apply_limit (Some N) (select_ids labels0 split) labels0))
                      english_only legible_only
                      (os_path_join (cocotext_images_dir E cache_dir) (file_name data)) annIdxs
                      = Inr block)
                 ?ids blocks"
    by (simp only: ids)
  from js ids cc lb bl' have ex: "\<exists>labels_zip labels0 blocks.
               read_json_member E labels_zip ''cocotext.v2.json'' = Inr labels0 \<and>
               fst (apply_limit (Some N) (select_ids labels0 split) labels0)
                 = take (nat N) (select_ids labels0 split) \<and>
               ds = concat blocks \<and> length blocks \<le> nat N \<and>
               list_all2
                 (\<lambda>cocoid block. \<exists>data annIdxs.
                    dict_get (imgs (snd (apply_limit (Some N) (select_ids labels0 split) labels0)))
                      cocoid = Inr data \<and>
                    dict_get (imgToAnns (snd (apply_limit (Some N) (select_ids labels0 split) labels0)))
                      cocoid = Inr annIdxs \<and>
                    image_entries (snd (apply_limit (Some N) (select_ids labels0 split) labels0))
                      english_only legible_only
                      (os_path_join (cocotext_images_dir E cache_dir) (file_name data)) annIdxs
                      = Inr block)
                 (take (nat N) (select_ids labels0 split)) blocks"
    by blast
  from card ex example_limit_5 example_limit_1 show ?thesis
    by (intro conjI)
qed

theorem cocotext_limit_caps_images_witness:
  "(0::int) < 1
   \<and> get_cocotext_recognizer_dataset example_coco_env ''train'' (Some ''/c'') (Some 1) False False
       False []
     = (Inr (take 2 example_dataset, None),
        [Download cocotext_labels_url ''/c/coco-text'',
         ReadZipMember ''/c/coco-text/file'' ''cocotext.v2.json'',
         Download ''http://images.cocodataset.org/train2014/b.jpg'' ''/c/coco-text/images''])
   \<and> card (fst ` set (take 2 example_dataset)) \<le> nat 1"
proof -
  have pos: "(0::int) < 1" by simp
  from cocotext_limit_caps_images [OF pos example_run_limit_1]
  have "card (fst ` set (take 2 example_dataset)) \<le> nat 1" by (rule conjunct1)
  with pos example_run_limit_1 show ?thesis by (intro conjI)
qed


subsection \<open>The order of the COCO-Text dataset\<close>

text \<open>
  Claim C7, as stated: the order of the returned dataset follows the sorted list of the
  selected image ids. On the small index the selected ids are \<open>2, 1\<close> in the order of
  the index, the function returns the entries of image \<open>2\<close> before those of image
  \<open>1\<close>, and the dataset that follows the sorted ids is a different one.
\<close>

theorem cocotext_order_sorted_counterexample:
  "fst (get_cocotext_recognizer_dataset example_coco_env ''train'' (Some ''/c'') None False False
          False []) = Inr (example_dataset, None)
   \<and> select_ids example_labels ''train'' = [''2'', ''1'']
   \<and> sort [''2'', ''1''] = [''1'', ''2'']
   \<and> dataset_following_sorted_ids example_labels False False ''/c/coco-text/images'' ''train''
       = Inr example_dataset_sorted
   \<and> example_dataset \<noteq> example_dataset_sorted"
  by (simp add: example_eval)


text \<open>
  Claim C7, amended. The order of the returned dataset is deterministic and independent
  of the order in which the downloads complete: a successful call returns the same
  result for every completion order. The dataset is the concatenation of one block of
  entries per selected id, in the order in which the ids occur in \<open>labels['imgs']\<close>
  (cut by the cap); the ids are not sorted.
\<close>

theorem cocotext_order_deterministic:
  assumes "get_cocotext_recognizer_dataset E split cache_dir limit legible_only english_only raw tr
             = (Inr (ds, r), tr')"
  shows "fst (get_cocotext_recognizer_dataset (E\<lparr>finish_time := ft\<rparr>) split cache_dir limit
                legible_only english_only raw tr) = Inr (ds, r)
         \<and> (\<exists>labels_zip labels0 blocks.
               read_json_member E labels_zip ''cocotext.v2.json'' = Inr labels0 \<and>
               ds = concat blocks \<and>
               list_all2
                 (\<lambda>cocoid block. \<exists>data annIdxs.
                    dict_get (imgs (snd (apply_limit limit (select_ids labels0 split) labels0)))
                      cocoid = Inr data \<and>
                    dict_get (imgToAnns (snd (apply_limit limit (select_ids labels0 split) labels0)))
                      cocoid = Inr annIdxs \<and>
                    image_entries (snd (apply_limit limit (select_ids labels0 split) labels0))
                      english_only legible_only
                      (os_path_join (cocotext_images_dir E cache_dir) (file_name data)) annIdxs
                      = Inr block)
                 (fst (apply_limit limit (select_ids labels0 split) labels0)) blocks)"
proof -
  let ?E' = "E\<lparr>finish_time := ft\<rparr>"
  from assms obtain labels_zip labels0 fns where
    sp: "split \<in> set [''train'', ''val'', ''trainval'']"
    and dl: "download_and_verify E cocotext_labels_url
       (os_path_join (default_cache_dir E cache_dir) ''coco-text'') = Inr labels_zip"
    and js: "read_json_member E labels_zip ''cocotext.v2.json'' = Inr labels0"
    and fn: "selected_filenames_of (snd (apply_limit limit (select_ids labels0 split) labels0))
       (fst (apply_limit limit (select_ids labels0 split) labels0)) = Inr fns"
    and im: "fst (download_images E (cocotext_images_dir E cache_dir) fns
            (tr @ [Download cocotext_labels_url
                     (os_path_join (default_cache_dir E cache_dir) ''coco-text''),
                   ReadZipMember labels_zip ''cocotext.v2.json''])) = Inr ()"
    and bd: "build_dataset (snd (apply_limit limit (select_ids labels0 split) labels0))
       english_only legible_only (cocotext_images_dir E cache_dir)
       (fst (apply_limit limit (select_ids labels0 split) labels0)) fns
       (fst (apply_limit limit (select_ids labels0 split) labels0)) = Inr ds"
    and r: "r = (if raw then Some (snd (apply_limit limit (select_ids labels0 split) labels0),
                            cocotext_images_dir E cache_dir) else None)"
    by (rule cocotext_Inr_cases)
  have cd: "default_cache_dir ?E' cache_dir = default_cache_dir E cache_dir"
    by (simp add: default_cache_dir_def split: option.splits)
  have idir: "cocotext_images_dir ?E' cache_dir = cocotext_images_dir E cache_dir"
    by (simp add: cocotext_images_dir_def cd)
  have dl': "download_and_verify ?E' cocotext_labels_url
       (os_path_join (default_cache_dir ?E' cache_dir) ''coco-text'') = Inr labels_zip"
    using dl by (simp add: cd)
  have js': "read_json_member ?E' labels_zip ''cocotext.v2.json'' = Inr labels0"
    using js by simp
  have im': "fst (download_images ?E' (cocotext_images_dir ?E' cache_dir) fns
            (tr @ [Download cocotext_labels_url
                     (os_path_join (default_cache_dir ?E' cache_dir) ''coco-text''),
                   ReadZipMember labels_zip ''cocotext.v2.json''])) = Inr ()"
    unfolding idir by (rule download_images_finish_time [OF im])
  have bd': "build_dataset (snd (apply_limit limit (select_ids labels0 split) labels0))
       english_only legible_only (cocotext_images_dir ?E' cache_dir)
       (fst (apply_limit limit (select_ids labels0 split) labels0)) fns
       (fst (apply_limit limit (select_ids labels0 split) labels0)) = Inr ds"
    using bd by (simp add: idir)
  have first: "fst (get_cocotext_recognizer_dataset ?E' split cache_dir limit
                legible_only english_only raw tr) = Inr (ds, r)"
    using cocotext_Inr_intro [OF sp dl' js' fn im' bd', of raw] r by (simp add: idir)
  from build_dataset_blocks [OF fn bd] obtain blocks where
    "ds = concat blocks"
    "list_all2
                 (\<lambda>cocoid block. \<exists>data annIdxs.
                    dict_get (imgs (snd (apply_limit limit (select_ids labels0 split) labels0)))
                      cocoid = Inr data \<and>
                    dict_get (imgToAnns (snd (apply_limit limit (select_ids labels0 split) labels0)))
                      cocoid = Inr annIdxs \<and>
                    image_entries (snd (apply_limit limit (select_ids labels0 split) labels0))
                      english_only legible_only
                      (os_path_join (cocotext_images_dir E cache_dir) (file_name data)) annIdxs
                      = Inr block)
                 (fst (apply_limit limit (select_ids labels0 split) labels0)) blocks"
    by blast
  with js first show ?thesis by blast
qed

theorem cocotext_order_deterministic_witness:
  "get_cocotext_recognizer_dataset example_coco_env ''train'' (Some ''/c'') None False False False []
     = (Inr (example_dataset, None), example_trace)
   \<and> fst (get_cocotext_recognizer_dataset (example_coco_env\<lparr>finish_time := (\<lambda>i. i)\<rparr>) ''train''
            (Some ''/c'') None False False False []) = Inr (example_dataset, None)"
  using example_run cocotext_order_deterministic [OF example_run, of "\<lambda>i. i"]
  by simp



subsection \<open>Shuffling and the effect of one round\<close>

text \<open>\<open>random.shuffle\<close> permutes its list, whatever the random source gives.\<close>

lemma mset_shuffle_from:
  "i < length xs \<Longrightarrow> mset (fst (shuffle_from i src p xs)) = mset xs"
proof (induction i arbitrary: p xs)
  case 0
  show ?case by simp
next
  case (Suc i)
  let ?j = "randbelow src p (Suc i + 1)"
  have "?j < Suc (Suc i)"
    by (simp add: randbelow_def)
  with Suc.prems have j: "?j < length xs"
    by linarith
  let ?ys = "xs[Suc i := xs ! ?j, ?j := xs ! Suc i]"
  have "mset ?ys = mset xs"
    using mset_swap [OF j Suc.prems] .
  moreover have "mset (fst (shuffle_from i src (Suc p) ?ys)) = mset ?ys"
    using Suc.prems by (intro Suc.IH) simp
  ultimately show ?case by (simp add: Let_def)
qed

lemma mset_random_shuffle: "mset (fst (random_shuffle src p xs)) = mset xs"
proof (cases xs)
  case Nil
  then show ?thesis by (simp add: random_shuffle_def)
next
  case (Cons x xs')
  then show ?thesis unfolding random_shuffle_def by (intro mset_shuffle_from) simp
qed

lemma length_random_shuffle: "length (fst (random_shuffle src p xs)) = length xs"
  using mset_random_shuffle [of src p xs] by (rule mset_eq_length)

lemma shuffle_in_place_cells:
  "cells (shuffle_in_place a m) =
     (cells m)(a := fst (random_shuffle (rnd_src m) (rnd_pos m) (cells m a)))"
  by (simp add: shuffle_in_place_def split: prod.splits)

lemma shuffle_in_place_next_free: "next_free (shuffle_in_place a m) = next_free m"
  by (simp add: shuffle_in_place_def split: prod.splits)

lemma make_image_frame [simp]:
  "cells (snd (make_image T A filepath box cval m)) = cells m"
  "next_free (snd (make_image T A filepath box cval m)) = next_free m"
  by (auto simp: make_image_def Let_def split: option.splits sum.splits)

lemma draw_cval_frame [simp]:
  "cells (snd (draw_cval m)) = cells m"
  "next_free (snd (draw_cval m)) = next_free m"
  by (auto simp: draw_cval_def)

lemma gen_round_stopped:
  "n g = 0 \<Longrightarrow> gen_round T A g m = (Stopped, g\<lparr>status := Done\<rparr>, m)"
  by (simp add: gen_round_def)

lemma gen_round_effect:
  assumes r: "gen_round T A g m = (ev, g', m')" and n: "n g \<noteq> 0"
  shows "cells m' = cells (if pos g = 0 then shuffle_in_place (labels_ref g) m else m)"
    and "next_free m' = next_free m"
    and "labels_ref g' = labels_ref g" and "n g' = n g"
    and "ev \<noteq> Stopped"
    and "is_visit ev \<Longrightarrow> status g' = status g \<and> pos g' = Suc (pos g) mod n g
           \<and> pos g < length (cells m' (labels_ref g))
           \<and> visited ev = [cells m' (labels_ref g) ! pos g]"
    and "\<not> is_visit ev \<Longrightarrow> status g' = Done"
    and "ev = Yielded e s \<Longrightarrow>
           snd s = filter (\<lambda>c. c \<in> set (alphabet A)) (snd (snd e)) \<and> snd s \<noteq> []"
    and "ev = Skipped e \<Longrightarrow> filter (\<lambda>c. c \<in> set (alphabet A)) (snd (snd e)) = []"
  using r n
  unfolding gen_round_def list_get_def Let_def case_prod_beta
  by (auto split: if_splits sum.splits option.splits simp: shuffle_in_place_next_free)


lemma gen_start_effect:
  assumes "gen_start A g m = (g1, m1)"
  shows "status g1 = Running" and "labels_ref g1 = next_free m" and "pos g1 = 0"
    and "n g1 = length (cells m (labels_ref g))"
    and "cells m1 = (cells m)(next_free m := cells m (labels_ref g))"
    and "next_free m1 = Suc (next_free m)"
  using assms
  by (auto simp: gen_start_def list_copy_def Let_def split: if_splits)

subsection \<open>The empty dataset\<close>

lemma gen_step_Done: "status g = Done \<Longrightarrow> gen_step T A g m = (Stopped, g, m)"
  by (simp add: gen_step_def)

lemma gen_next_Done: "status g = Done \<Longrightarrow> gen_next (Suc fuel) T A g m = Some (Stopped, g, m)"
  by (simp add: gen_step_Done)

lemma gen_pulls_Done:
  "status g = Done \<Longrightarrow> gen_pulls k (Suc fuel) T A g m = Some (replicate k Stopped, g, m)"
  by (induction k) (simp_all add: gen_next_Done del: gen_next.simps)

lemma gen_step_empty:
  assumes "status g = Created" and "cells m (labels_ref g) = []"
  shows "gen_step T A g m =
           (Stopped,
            \<lparr>status = Done, labels_ref = next_free m, n = 0, pos = 0\<rparr>,
            m\<lparr>cells := (cells m)(next_free m := []), next_free := Suc (next_free m)\<rparr>)"
  using assms
  by (simp add: gen_step_def gen_start_def list_copy_def n_with_illegal_characters_def
      gen_round_def Let_def)

text \<open>
  Claim C9. For an empty list of labels the stream of the generator is empty and finite:
  the first \<open>next\<close> returns at once with the end of the iteration (one unit of fuel is
  enough, nothing is visited), and so does every later one.
\<close>

theorem empty_dataset_stops:
  assumes "cells m labels = []"
  shows "gen_next (Suc fuel) T A (get_recognizer_image_generator labels) m =
           Some (Stopped,
                 \<lparr>status = Done, labels_ref = next_free m, n = 0, pos = 0\<rparr>,
                 m\<lparr>cells := (cells m)(next_free m := []), next_free := Suc (next_free m)\<rparr>)
         \<and> (\<exists>g' m'. gen_pulls k (Suc fuel) T A (get_recognizer_image_generator labels) m =
                       Some (replicate k Stopped, g', m'))"
proof -
  let ?g = "get_recognizer_image_generator labels"
  let ?g' = "\<lparr>status = Done, labels_ref = next_free m, n = 0, pos = 0\<rparr>"
  let ?m' = "m\<lparr>cells := (cells m)(next_free m := []), next_free := Suc (next_free m)\<rparr>"
  have st: "gen_step T A ?g m = (Stopped, ?g', ?m')"
    using assms by (intro gen_step_empty) (simp_all add: get_recognizer_image_generator_def)
  then have nx: "gen_next (Suc fuel) T A ?g m = Some (Stopped, ?g', ?m')"
    by simp
  have "\<exists>g' m'. gen_pulls k (Suc fuel) T A ?g m = Some (replicate k Stopped, g', m')"
  proof (cases k)
    case 0
    then show ?thesis by simp
  next
    case (Suc j)
    have "gen_pulls j (Suc fuel) T A ?g' ?m' = Some (replicate j Stopped, ?g', ?m')"
      by (rule gen_pulls_Done) simp
    with nx Suc show ?thesis by (simp del: gen_next.simps)
  qed
  with nx show ?thesis by blast
qed

theorem empty_dataset_stops_witness:
  "cells example_empty_machine 0 = []
   \<and> (\<exists>g' m'. gen_pulls 3 (Suc 0) example_tools example_args
                  (get_recognizer_image_generator 0) example_empty_machine =
                Some ([Stopped, Stopped, Stopped], g', m'))"
proof -
  have h: "cells example_empty_machine 0 = []"
    by (simp add: example_empty_machine_def)
  from empty_dataset_stops [OF h, of 0 example_tools example_args 3]
  have "\<exists>g' m'. gen_pulls 3 (Suc 0) example_tools example_args
                  (get_recognizer_image_generator 0) example_empty_machine =
                Some (replicate 3 Stopped, g', m')"
    by (rule conjunct2)
  then have "\<exists>g' m'. gen_pulls 3 (Suc 0) example_tools example_args
                  (get_recognizer_image_generator 0) example_empty_machine =
                Some ([Stopped, Stopped, Stopped], g', m')"
    by (simp add: numeral_3_eq_3 del: gen_pulls.simps gen_next.simps)
  with h show ?thesis by (rule conjI)
qed

subsection \<open>The fill colour\<close>

lemma word8_below_255: "k < 255 \<Longrightarrow> (of_nat k :: 8 word) \<noteq> 255"
proof
  assume k: "k < 255" and eq: "(of_nat k :: 8 word) = 255"
  have "unat (of_nat k :: 8 word) = k"
    using k by (simp add: unat_of_nat)
  moreover have "unat (255 :: 8 word) = 255" by simp
  ultimately show False using eq k by simp
qed

text \<open>
  Claim C4. The fill colour has three components, and none of them is ever 255:
  \<open>np.random.randint(low=0, high=255, size=3)\<close> excludes its upper bound, so every
  component lies in the range from 0 to 254.
\<close>

theorem cval_never_255:
  "length (fst (draw_cval m)) = 3 \<and> 255 \<notin> set (fst (draw_cval m))"
  by (simp add: draw_cval_def np_randint_def word8_below_255)


subsection \<open>The caller's list\<close>

lemma gen_round_frame:
  assumes "labels_ref g \<noteq> a" and "gen_round T A g m = (ev, g', m')"
  shows "cells m' a = cells m a \<and> next_free m' = next_free m \<and> labels_ref g' = labels_ref g"
proof (cases "n g = 0")
  case True
  with assms(2) show ?thesis by (auto simp: gen_round_stopped)
next
  case False
  from gen_round_effect(1-3) [OF assms(2) False] assms(1) show ?thesis
    by (simp add: shuffle_in_place_cells)
qed

lemma gen_step_frame:
  assumes a: "a < next_free m" and r: "status g = Running \<longrightarrow> labels_ref g \<noteq> a"
    and st: "gen_step T A g m = (ev, g', m')"
  shows "cells m' a = cells m a \<and> a < next_free m'
         \<and> (status g' = Running \<longrightarrow> labels_ref g' \<noteq> a)"
proof (cases "status g")
  case Done
  with st a show ?thesis by (simp add: gen_step_def)
next
  case Running
  with st have "gen_round T A g m = (ev, g', m')" by (simp add: gen_step_def)
  from gen_round_frame [OF _ this, of a] Running r a show ?thesis by simp
next
  case Created
  obtain g1 m1 where s1: "gen_start A g m = (g1, m1)" by (cases "gen_start A g m")
  with st Created have rd: "gen_round T A g1 m1 = (ev, g', m')" by (simp add: gen_step_def)
  from gen_start_effect [OF s1] a have ref: "labels_ref g1 \<noteq> a"
    and c1: "cells m1 a = cells m a" and nf: "a < next_free m1"
    by simp_all
  from gen_round_frame [OF ref rd] ref c1 nf show ?thesis by simp
qed

lemma gen_next_frame:
  assumes "a < next_free m" and "status g = Running \<longrightarrow> labels_ref g \<noteq> a"
    and "gen_next fuel T A g m = Some (ev, g', m')"
  shows "cells m' a = cells m a \<and> a < next_free m'
         \<and> (status g' = Running \<longrightarrow> labels_ref g' \<noteq> a)"
  using assms
proof (induction fuel arbitrary: g m)
  case 0
  then show ?case by simp
next
  case (Suc fuel)
  obtain ev1 g1 m1 where st: "gen_step T A g m = (ev1, g1, m1)"
    by (cases "gen_step T A g m")
  from gen_step_frame [OF Suc.prems(1,2) st]
  have f1: "cells m1 a = cells m a" "a < next_free m1"
    "status g1 = Running \<longrightarrow> labels_ref g1 \<noteq> a" by simp_all
  show ?case
  proof (cases "\<exists>e. ev1 = Skipped e")
    case True
    with st Suc.prems(3) have "gen_next fuel T A g1 m1 = Some (ev, g', m')" by auto
    from Suc.IH [OF f1(2,3) this] f1(1) show ?thesis by simp
  next
    case False
    with st Suc.prems(3) have "(ev, g', m') = (ev1, g1, m1)"
      by (cases ev1) auto
    with f1 show ?thesis by simp
  qed
qed

lemma gen_pulls_frame:
  assumes "a < next_free m" and "status g = Running \<longrightarrow> labels_ref g \<noteq> a"
    and "gen_pulls k fuel T A g m = Some (evs, g', m')"
  shows "cells m' a = cells m a"
  using assms
proof (induction k arbitrary: g m evs)
  case 0
  then show ?case by simp
next
  case (Suc k)
  from Suc.prems(3) obtain ev1 g1 m1 evs1 where
    nx: "gen_next fuel T A g m = Some (ev1, g1, m1)"
    and rest: "gen_pulls k fuel T A g1 m1 = Some (evs1, g', m')"
    by (auto split: option.splits prod.splits)
  from gen_next_frame [OF Suc.prems(1,2) nx]
  have f1: "cells m1 a = cells m a" "a < next_free m1"
    "status g1 = Running \<longrightarrow> labels_ref g1 \<noteq> a" by simp_all
  from Suc.IH [OF f1(2,3) rest] f1(1) show ?case by simp
qed

text \<open>
  Claim C8. The list handed to the generator lives at an address of the store that is in
  use. After any number of pulls, each with any fuel, the list at that address is what it
  was: the generator copies it to a fresh address on its first round and shuffles only
  the copy.
\<close>

theorem caller_list_unchanged:
  assumes "labels < next_free m"
    and "gen_pulls k fuel T A (get_recognizer_image_generator labels) m = Some (evs, g', m')"
  shows "cells m' labels = cells m labels"
  using assms(1) _ assms(2)
  by (rule gen_pulls_frame) (simp add: get_recognizer_image_generator_def)

lemma example_two_pulls:
  "map_option fst (gen_pulls 2 3 example_tools example_args (get_recognizer_image_generator 0)
                     example_machine)
     = Some [Yielded (''a.png'', None, ''abcxyz'') (''a.png'', ''abc''),
             Yielded (''a.png'', None, ''abcxyz'') (''a.png'', ''abc'')]"
  by code_simp

theorem caller_list_unchanged_witness:
  "0 < next_free example_machine
   \<and> (\<exists>g' m'. gen_pulls 2 3 example_tools example_args (get_recognizer_image_generator 0)
                  example_machine
                = Some ([Yielded (''a.png'', None, ''abcxyz'') (''a.png'', ''abc''),
                         Yielded (''a.png'', None, ''abcxyz'') (''a.png'', ''abc'')], g', m')
              \<and> cells m' 0 = example_entries)"
proof -
  have a: "0 < next_free example_machine" by (simp add: example_machine_def)
  from example_two_pulls obtain g' m' where
    p: "gen_pulls 2 3 example_tools example_args (get_recognizer_image_generator 0)
          example_machine
        = Some ([Yielded (''a.png'', None, ''abcxyz'') (''a.png'', ''abc''),
                 Yielded (''a.png'', None, ''abcxyz'') (''a.png'', ''abc'')], g', m')"
    by (cases "gen_pulls 2 3 example_tools example_args (get_recognizer_image_generator 0)
                 example_machine") auto
  from caller_list_unchanged [OF a p] have "cells m' 0 = example_entries"
    by (simp add: example_machine_def)
  with a p show ?thesis by blast
qed


subsection \<open>Alphabet filtering\<close>

lemma gen_round_yield:
  assumes "gen_round T A g m = (Yielded e s, g', m')"
  shows "snd s = filter (\<lambda>c. c \<in> set (alphabet A)) (snd (snd e)) \<and> snd s \<noteq> []"
proof (cases "n g = 0")
  case True
  with assms show ?thesis by (simp add: gen_round_stopped)
next
  case False
  from gen_round_effect(8) [OF assms False refl] show ?thesis .
qed

lemma gen_step_yield:
  assumes "gen_step T A g m = (Yielded e s, g', m')"
  shows "snd s = filter (\<lambda>c. c \<in> set (alphabet A)) (snd (snd e)) \<and> snd s \<noteq> []"
proof (cases "status g")
  case Done
  with assms show ?thesis by (simp add: gen_step_def)
next
  case Running
  with assms have "gen_round T A g m = (Yielded e s, g', m')" by (simp add: gen_step_def)
  then show ?thesis by (rule gen_round_yield)
next
  case Created
  obtain g1 m1 where "gen_start A g m = (g1, m1)" by (cases "gen_start A g m")
  with assms Created have "gen_round T A g1 m1 = (Yielded e s, g', m')"
    by (simp add: gen_step_def)
  then show ?thesis by (rule gen_round_yield)
qed

lemma gen_next_yield:
  "gen_next fuel T A g m = Some (Yielded e s, g', m') \<Longrightarrow>
     snd s = filter (\<lambda>c. c \<in> set (alphabet A)) (snd (snd e)) \<and> snd s \<noteq> []"
proof (induction fuel arbitrary: g m)
  case 0
  then show ?case by simp
next
  case (Suc fuel)
  obtain ev1 g1 m1 where st: "gen_step T A g m = (ev1, g1, m1)"
    by (cases "gen_step T A g m")
  show ?case
  proof (cases "\<exists>e1. ev1 = Skipped e1")
    case True
    with st Suc.prems have "gen_next fuel T A g1 m1 = Some (Yielded e s, g', m')" by auto
    then show ?thesis by (rule Suc.IH)
  next
    case False
    with st Suc.prems have "(ev1, g1, m1) = (Yielded e s, g', m')"
      by (cases ev1) auto
    with st have "gen_step T A g m = (Yielded e s, g', m')" by simp
    then show ?thesis by (rule gen_step_yield)
  qed
qed

lemma gen_round_skip:
  assumes "gen_round T A g m = (Skipped e, g', m')"
  shows "filter (\<lambda>c. c \<in> set (alphabet A)) (snd (snd e)) = []
         \<and> pos g' = Suc (pos g) mod n g \<and> status g' = status g"
proof (cases "n g = 0")
  case True
  with assms show ?thesis by (simp add: gen_round_stopped)
next
  case False
  from gen_round_effect(6) [OF assms False] gen_round_effect(9) [OF assms False refl]
  show ?thesis by simp
qed

lemma gen_round_empty_text:
  assumes n: "n g \<noteq> 0" and r: "gen_round T A g m = (ev, g', m')"
    and e: "filter (\<lambda>c. c \<in> set (alphabet A)) (snd (snd (cells m' (labels_ref g) ! pos g))) = []"
  shows "ev \<noteq> Yielded e2 s2"
proof
  assume y: "ev = Yielded e2 s2"
  then have "is_visit ev" by simp
  from gen_round_effect(6) [OF r n this] y have "e2 = cells m' (labels_ref g) ! pos g"
    by simp
  moreover from gen_round_effect(8) [OF r n y]
  have "filter (\<lambda>c. c \<in> set (alphabet A)) (snd (snd e2)) \<noteq> []" by auto
  ultimately show False using e by simp
qed

text \<open>A round whose entry filters to the empty text and whose image is made without an
  exception ends in \<open>continue\<close>: it is skipped and the cycle moves on.\<close>

lemma gen_round_continue:
  assumes "n g \<noteq> 0"
    and "m3 = (if pos g = 0 then shuffle_in_place (labels_ref g) m else m)"
    and "pos g < length (cells m3 (labels_ref g))"
    and "cells m3 (labels_ref g) ! pos g = (filepath, box, tx)"
    and "filter (\<lambda>c. c \<in> set (alphabet A)) tx = []"
    and "fst (make_image T A filepath box (fst (draw_cval m3)) (snd (draw_cval m3))) = Inr img"
  shows "gen_round T A g m =
           (Skipped (filepath, box, tx), g\<lparr>pos := Suc (pos g) mod n g\<rparr>,
            snd (make_image T A filepath box (fst (draw_cval m3)) (snd (draw_cval m3))))"
proof (cases "pos g = 0")
  case True
  with assms(2) have m3: "m3 = shuffle_in_place (labels_ref g) m" by simp
  show ?thesis
    using assms(1,3-6) True unfolding m3
    by (simp add: gen_round_def list_get_def Let_def case_prod_beta)
next
  case False
  with assms(2) have m3: "m3 = m" by simp
  show ?thesis
    using assms(1,3-6) False unfolding m3
    by (simp add: gen_round_def list_get_def Let_def case_prod_beta)
qed

text \<open>
  Claim C2. Every pair that a pull returns carries the text of the visited entry
  filtered to the characters of the alphabet, in their order, and this text is not
  empty. A round that ends in \<open>continue\<close> has visited an entry whose filtered text is
  empty, emits nothing and moves the cycle to the next index; a round that visits an
  entry whose filtered text is empty never yields; and whenever the visited entry filters
  to the empty text and its image is made without an exception, the round is that
  \<open>continue\<close>: the entry is skipped, nothing is emitted and the cycle is at the next
  index. In the witness the alphabet is \<open>abc\<close>: the entry \<open>abcxyz\<close> is emitted as
  \<open>abc\<close>, and the entry \<open>xyz\<close> is skipped at index 0 and at index 1.
\<close>

theorem emitted_text_is_filtered:
  "(gen_next fuel T A g m = Some (Yielded e s, g', m') \<longrightarrow>
      snd s = filter (\<lambda>c. c \<in> set (alphabet A)) (snd (snd e)) \<and> snd s \<noteq> [])
   \<and> (gen_round T A g m = (Skipped e1, g1, m1) \<longrightarrow>
        filter (\<lambda>c. c \<in> set (alphabet A)) (snd (snd e1)) = []
        \<and> pos g1 = Suc (pos g) mod n g \<and> status g1 = status g)
   \<and> (n g \<noteq> 0 \<and> gen_round T A g m = (ev, g2, m2)
        \<and> filter (\<lambda>c. c \<in> set (alphabet A)) (snd (snd (cells m2 (labels_ref g) ! pos g))) = []
        \<longrightarrow> ev \<noteq> Yielded e2 s2)
   \<and> (n g \<noteq> 0
        \<and> m3 = (if pos g = 0 then shuffle_in_place (labels_ref g) m else m)
        \<and> pos g < length (cells m3 (labels_ref g))
        \<and> cells m3 (labels_ref g) ! pos g = (filepath, box, tx)
        \<and> filter (\<lambda>c. c \<in> set (alphabet A)) tx = []
        \<and> fst (make_image T A filepath box (fst (draw_cval m3)) (snd (draw_cval m3))) = Inr img
        \<longrightarrow> gen_round T A g m =
              (Skipped (filepath, box, tx), g\<lparr>pos := Suc (pos g) mod n g\<rparr>,
               snd (make_image T A filepath box (fst (draw_cval m3)) (snd (draw_cval m3)))))"
  using gen_next_yield [of fuel T A g m e s g' m'] gen_round_skip [of T A g m e1 g1 m1]
    gen_round_empty_text [of g T A m ev g2 m2 e2 s2]
    gen_round_continue [of g m3 m filepath box tx A T img]
  by blast

lemma example_first_pull:
  "map_option fst (gen_next 2 example_tools example_args (get_recognizer_image_generator 0)
                     example_machine)
     = Some (Yielded (''a.png'', None, ''abcxyz'') (''a.png'', ''abc''))"
  by code_simp

lemma example_first_round:
  "fst (gen_round example_tools example_args example_running example_machine)
     = Skipped (''b.png'', None, ''xyz'')"
  by code_simp

theorem emitted_text_is_filtered_witness:
  "(\<exists>g' m'. gen_next 2 example_tools example_args (get_recognizer_image_generator 0)
                example_machine
              = Some (Yielded (''a.png'', None, ''abcxyz'') (''a.png'', ''abc''), g', m'))
   \<and> ''abc'' = filter (\<lambda>c. c \<in> set ''abc'') ''abcxyz''
   \<and> (\<exists>g1 m1. gen_round example_tools example_args example_running example_machine
              = (Skipped (''b.png'', None, ''xyz''), g1, m1)
          \<and> filter (\<lambda>c. c \<in> set ''abc'') ''xyz'' = [] \<and> pos g1 = 1)
   \<and> cells example_machine 0 ! 1 = (''b.png'', None, ''xyz'')
   \<and> fst (gen_round example_tools example_args example_running_at_1 example_machine)
       = Skipped (''b.png'', None, ''xyz'')
   \<and> pos (fst (snd (gen_round example_tools example_args example_running_at_1 example_machine)))
       = 0"
proof -
  from example_first_pull obtain g' m' where
    p: "gen_next 2 example_tools example_args (get_recognizer_image_generator 0) example_machine
        = Some (Yielded (''a.png'', None, ''abcxyz'') (''a.png'', ''abc''), g', m')"
    by (cases "gen_next 2 example_tools example_args (get_recognizer_image_generator 0)
                 example_machine") auto
  from example_first_round obtain g1 m1 where
    r: "gen_round example_tools example_args example_running example_machine
        = (Skipped (''b.png'', None, ''xyz''), g1, m1)"
    by (cases "gen_round example_tools example_args example_running example_machine") auto
  note t1 = emitted_text_is_filtered [of 2 example_tools example_args
      "get_recognizer_image_generator 0" example_machine "(''a.png'', None, ''abcxyz'')"
      "(''a.png'', ''abc'')" g' m']
  note t2 = emitted_text_is_filtered [of _ example_tools example_args
      example_running example_machine _ _ _ _ "(''b.png'', None, ''xyz'')" g1 m1]
  from t1 p have a: "''abc'' = filter (\<lambda>c. c \<in> set ''abc'') ''abcxyz''"
    by (simp add: example_args_def)
  from t2 r have b: "filter (\<lambda>c. c \<in> set ''abc'') ''xyz'' = [] \<and> pos g1 = 1"
    by (simp add: example_args_def example_running_def)
  have h: "n example_running_at_1 \<noteq> 0
        \<and> example_machine = (if pos example_running_at_1 = 0
              then shuffle_in_place (labels_ref example_running_at_1) example_machine
              else example_machine)
        \<and> pos example_running_at_1
            < length (cells example_machine (labels_ref example_running_at_1))
        \<and> cells example_machine (labels_ref example_running_at_1) ! pos example_running_at_1
            = (''b.png'', None, ''xyz'')
        \<and> filter (\<lambda>c. c \<in> set (alphabet example_args)) ''xyz'' = []
        \<and> fst (make_image example_tools example_args ''b.png'' None
                 (fst (draw_cval example_machine)) (snd (draw_cval example_machine)))
            = Inr ''b.png''"
    by (simp add: example_running_at_1_def example_machine_def example_entries_def
        example_args_def example_tools_def make_image_def)
  note t3 = emitted_text_is_filtered [where T = example_tools and A = example_args
      and g = example_running_at_1 and m = example_machine and ?m3.0 = example_machine
      and filepath = "''b.png''" and box = None and tx = "''xyz''" and img = "''b.png''"]
  from t3 h have c: "gen_round example_tools example_args example_running_at_1 example_machine
      = (Skipped (''b.png'', None, ''xyz''),
         example_running_at_1\<lparr>pos := Suc (pos example_running_at_1) mod n example_running_at_1\<rparr>,
         snd (make_image example_tools example_args ''b.png'' None
                 (fst (draw_cval example_machine)) (snd (draw_cval example_machine))))"
    by blast
  have d: "cells example_machine 0 ! 1 = (''b.png'', None, ''xyz'')"
    by (simp add: example_machine_def example_entries_def)
  from c have e: "fst (gen_round example_tools example_args example_running_at_1 example_machine)
       = Skipped (''b.png'', None, ''xyz'')"
    and f: "pos (fst (snd (gen_round example_tools example_args example_running_at_1
                             example_machine))) = 0"
    by (simp_all add: example_running_at_1_def)
  from p a r b d e f show ?thesis by blast
qed



subsection \<open>Shuffling at index 0 only\<close>

lemma gen_run_Suc:
  assumes "gen_run (Suc k) T A g m = (evs, g', m')"
  obtains ev g1 m1 evs1 where "gen_step T A g m = (ev, g1, m1)"
    and "gen_run k T A g1 m1 = (evs1, g', m')" and "evs = ev # evs1"
  using assms by (auto split: prod.splits)

lemma gen_run_no_shuffle:
  assumes "status g = Running" and "n g = length (cells m (labels_ref g))"
    and "0 < pos g" and "pos g + k \<le> n g" and "pos g < n g"
    and "gen_run k T A g m = (evs, g', m')" and "\<forall>ev \<in> set evs. is_visit ev"
  shows "concat (map visited evs) = take k (drop (pos g) (cells m (labels_ref g)))
         \<and> cells m' = cells m \<and> pos g' = (pos g + k) mod n g \<and> status g' = Running
         \<and> labels_ref g' = labels_ref g \<and> n g' = n g"
  using assms
proof (induction k arbitrary: g m evs)
  case 0
  then show ?case by simp
next
  case (Suc k)
  from Suc.prems(6) obtain ev g1 m1 evs1 where
    st: "gen_step T A g m = (ev, g1, m1)"
    and rest: "gen_run k T A g1 m1 = (evs1, g', m')" and evs: "evs = ev # evs1"
    by (rule gen_run_Suc)
  from st Suc.prems(1) have rd: "gen_round T A g m = (ev, g1, m1)"
    by (simp add: gen_step_def)
  from Suc.prems(4) have n0: "n g \<noteq> 0" and lt: "pos g < n g" by simp_all
  from evs Suc.prems(7) have vis: "is_visit ev" and vis1: "\<forall>ev \<in> set evs1. is_visit ev"
    by simp_all
  from gen_round_effect(1) [OF rd n0] Suc.prems(3) have c1: "cells m1 = cells m" by simp
  from gen_round_effect(3,4) [OF rd n0] have r1: "labels_ref g1 = labels_ref g" "n g1 = n g"
    by simp_all
  from gen_round_effect(6) [OF rd n0 vis] Suc.prems(1) c1
  have s1: "status g1 = Running" and p1: "pos g1 = Suc (pos g) mod n g"
    and v: "visited ev = [cells m (labels_ref g) ! pos g]"
    by simp_all
  let ?L = "cells m (labels_ref g)"
  have hd: "take (Suc k) (drop (pos g) ?L) = ?L ! pos g # take k (drop (Suc (pos g)) ?L)"
    using lt Suc.prems(2) by (simp flip: Cons_nth_drop_Suc)
  show ?case
  proof (cases k)
    case 0
    with rest have "evs1 = []" "g' = g1" "m' = m1" by simp_all
    with evs v c1 r1 s1 p1 hd 0 show ?thesis by simp
  next
    case (Suc j)
    with Suc.prems(4) have lt1: "Suc (pos g) < n g" by simp
    with p1 have p1': "pos g1 = Suc (pos g)" by simp
    have "concat (map visited evs1) = take k (drop (pos g1) (cells m1 (labels_ref g1)))
         \<and> cells m' = cells m1 \<and> pos g' = (pos g1 + k) mod n g1 \<and> status g' = Running
         \<and> labels_ref g' = labels_ref g1 \<and> n g' = n g1"
      using s1 r1 c1 p1' lt1 Suc.prems(2,4) rest vis1 by (intro Suc.IH) simp_all
    with evs v c1 r1 p1' hd show ?thesis by simp
  qed
qed

lemma gen_run_pass:
  assumes run: "status g = Running" and len: "n g = length (cells m (labels_ref g))"
    and n0: "n g \<noteq> 0" and p0: "pos g = 0"
    and r: "gen_run (n g) T A g m = (evs, g', m')" and vis: "\<forall>ev \<in> set evs. is_visit ev"
  shows "concat (map visited evs) = cells m' (labels_ref g)
         \<and> cells m' (labels_ref g)
             = fst (random_shuffle (rnd_src m) (rnd_pos m) (cells m (labels_ref g)))
         \<and> pos g' = 0 \<and> status g' = Running"
proof -
  obtain k where k: "n g = Suc k" using n0 by (cases "n g") auto
  from r [unfolded k] obtain ev g1 m1 evs1 where
    st: "gen_step T A g m = (ev, g1, m1)"
    and rest: "gen_run k T A g1 m1 = (evs1, g', m')" and evs: "evs = ev # evs1"
    by (rule gen_run_Suc)
  from st run have rd: "gen_round T A g m = (ev, g1, m1)"
    by (simp add: gen_step_def)
  from evs vis have v0: "is_visit ev" and vis1: "\<forall>ev \<in> set evs1. is_visit ev"
    by simp_all
  let ?L = "fst (random_shuffle (rnd_src m) (rnd_pos m) (cells m (labels_ref g)))"
  from gen_round_effect(1) [OF rd n0] p0
  have c1: "cells m1 (labels_ref g) = ?L"
    by (simp add: shuffle_in_place_cells)
  have lenL: "length ?L = n g" by (simp add: length_random_shuffle len)
  from gen_round_effect(3,4) [OF rd n0] have r1: "labels_ref g1 = labels_ref g" "n g1 = n g"
    by simp_all
  from gen_round_effect(6) [OF rd n0 v0] run c1 p0
  have s1: "status g1 = Running" and p1: "pos g1 = Suc 0 mod n g"
    and v: "visited ev = [?L ! 0]"
    by simp_all
  show ?thesis
  proof (cases k)
    case 0
    with rest have e: "evs1 = []" "g' = g1" "m' = m1" by simp_all
    from 0 k lenL have "length ?L = 1" by simp
    then have "[?L ! 0] = ?L" by (cases ?L) auto
    with e evs v c1 s1 p1 k 0 show ?thesis by simp
  next
    case (Suc j)
    with k p1 have p1': "pos g1 = 1" by simp
    have "concat (map visited evs1) = take k (drop (pos g1) (cells m1 (labels_ref g1)))
         \<and> cells m' = cells m1 \<and> pos g' = (pos g1 + k) mod n g1 \<and> status g' = Running
         \<and> labels_ref g' = labels_ref g1 \<and> n g' = n g1"
      using s1 r1 c1 lenL p1' k Suc rest vis1 by (intro gen_run_no_shuffle) simp_all
    then have a: "concat (map visited evs1) = take k (drop 1 ?L)"
      and b: "cells m' = cells m1" and c: "pos g' = (1 + k) mod n g" and d: "status g' = Running"
      using p1' r1 c1 by simp_all
    from lenL k have "take k (drop 1 ?L) = drop 1 ?L" by simp
    moreover from lenL k have "?L ! 0 # drop 1 ?L = ?L" by (cases ?L) auto
    ultimately have "concat (map visited evs) = ?L" using evs v a by simp
    with b c d c1 k show ?thesis by simp
  qed
qed

text \<open>
  Claim C3. A round of the loop changes the private copy exactly when its index is 0:
  then the copy is replaced by its shuffle, a permutation of it, and at any other index
  the whole store stays as it is. A pass of \<open>K\<close> rounds over a copy of length \<open>K\<close>,
  started at index 0 and not ended by an exception, visits the entries in the order of
  the shuffled copy, which stays fixed during the pass: every entry once, and the cycle
  is back at index 0.
\<close>

theorem shuffle_only_at_index_zero:
  assumes "n g \<noteq> 0"
  shows "(gen_round T A g m = (ev, g1, m1) \<longrightarrow>
            (pos g \<noteq> 0 \<longrightarrow> cells m1 = cells m)
            \<and> (pos g = 0 \<longrightarrow>
                 cells m1 = (cells m)(labels_ref g :=
                   fst (random_shuffle (rnd_src m) (rnd_pos m) (cells m (labels_ref g)))))
            \<and> mset (cells m1 (labels_ref g)) = mset (cells m (labels_ref g)))
         \<and> (status g = Running \<and> n g = length (cells m (labels_ref g)) \<and> pos g = 0
              \<and> gen_run (n g) T A g m = (evs, g', m') \<and> (\<forall>ev \<in> set evs. is_visit ev) \<longrightarrow>
              concat (map visited evs) = cells m' (labels_ref g)
              \<and> cells m' (labels_ref g)
                  = fst (random_shuffle (rnd_src m) (rnd_pos m) (cells m (labels_ref g)))
              \<and> mset (concat (map visited evs)) = mset (cells m (labels_ref g))
              \<and> pos g' = 0 \<and> status g' = Running)"
proof (intro conjI impI)
  assume rd: "gen_round T A g m = (ev, g1, m1)"
  show "pos g \<noteq> 0 \<Longrightarrow> cells m1 = cells m"
    using gen_round_effect(1) [OF rd assms] by simp
  show "pos g = 0 \<Longrightarrow> cells m1 = (cells m)(labels_ref g :=
                   fst (random_shuffle (rnd_src m) (rnd_pos m) (cells m (labels_ref g))))"
    using gen_round_effect(1) [OF rd assms] by (simp add: shuffle_in_place_cells)
  show "mset (cells m1 (labels_ref g)) = mset (cells m (labels_ref g))"
    using gen_round_effect(1) [OF rd assms]
    by (simp add: shuffle_in_place_cells mset_random_shuffle)
next
  assume h: "status g = Running \<and> n g = length (cells m (labels_ref g)) \<and> pos g = 0
              \<and> gen_run (n g) T A g m = (evs, g', m') \<and> (\<forall>ev \<in> set evs. is_visit ev)"
  then have h1: "status g = Running" and h2: "n g = length (cells m (labels_ref g))"
    and h3: "pos g = 0" and h4: "gen_run (n g) T A g m = (evs, g', m')"
    and h5: "\<forall>ev \<in> set evs. is_visit ev"
    by blast+
  have p: "concat (map visited evs) = cells m' (labels_ref g)
         \<and> cells m' (labels_ref g)
             = fst (random_shuffle (rnd_src m) (rnd_pos m) (cells m (labels_ref g)))
         \<and> pos g' = 0 \<and> status g' = Running"
    using h1 h2 assms h3 h4 h5 by (rule gen_run_pass)
  then show "concat (map visited evs) = cells m' (labels_ref g)"
    and "cells m' (labels_ref g)
                  = fst (random_shuffle (rnd_src m) (rnd_pos m) (cells m (labels_ref g)))"
    and "pos g' = 0" and "status g' = Running"
    by simp_all
  from p show "mset (concat (map visited evs)) = mset (cells m (labels_ref g))"
    by (simp add: mset_random_shuffle)
qed


lemma example_pass:
  "fst (gen_run 2 example_tools example_args example_running example_machine)
     = [Skipped (''b.png'', None, ''xyz''),
        Yielded (''a.png'', None, ''abcxyz'') (''a.png'', ''abc'')]"
  by code_simp

theorem shuffle_only_at_index_zero_witness:
  "n example_running \<noteq> 0
   \<and> (\<exists>g' m'. gen_run 2 example_tools example_args example_running example_machine
                = ([Skipped (''b.png'', None, ''xyz''),
                    Yielded (''a.png'', None, ''abcxyz'') (''a.png'', ''abc'')], g', m')
              \<and> cells m' 0 = [(''b.png'', None, ''xyz''), (''a.png'', None, ''abcxyz'')]
              \<and> pos g' = 0)"
proof -
  let ?evs = "[Skipped (''b.png'', None, ''xyz''),
               Yielded (''a.png'', None, ''abcxyz'') (''a.png'', ''abc'')]"
  have n: "n example_running \<noteq> 0" by (simp add: example_running_def)
  from example_pass obtain g' m' where
    r: "gen_run 2 example_tools example_args example_running example_machine = (?evs, g', m')"
    by (cases "gen_run 2 example_tools example_args example_running example_machine") auto
  have h: "status example_running = Running
           \<and> n example_running = length (cells example_machine (labels_ref example_running))
           \<and> pos example_running = 0
           \<and> gen_run (n example_running) example_tools example_args example_running
               example_machine = (?evs, g', m')
           \<and> (\<forall>ev \<in> set ?evs. is_visit ev)"
    using r by (simp add: example_running_def example_machine_def example_entries_def)
  from shuffle_only_at_index_zero [OF n, of example_tools example_args example_machine
      _ _ _ ?evs g' m'] h
  have "concat (map visited ?evs) = cells m' (labels_ref example_running) \<and> pos g' = 0"
    by blast
  then have "cells m' 0 = [(''b.png'', None, ''xyz''), (''a.png'', None, ''abcxyz'')]"
    and "pos g' = 0"
    by (simp_all add: example_running_def)
  with n r show ?thesis by blast
qed


end
